theory Spec2Isabelle
  imports Complex_Main "HOL-Library.Word" "HOL-Library.Char_ord" "HOL-Library.List_Lexorder"
begin

section \<open>Data model of the compiler stack\<close>

text \<open>
  A source location as attached to AST nodes: the byte offsets \<open>start\<close> and \<open>end\<close>, and
  the name of the source.
\<close>

record SourceLocation =
  loc_start :: int
  loc_end :: int
  sourceName :: string

text \<open>
  The top-level nodes of a source unit. \<open>resolveImports\<close> and \<open>contract\<close> tell the node kinds
  apart with \<open>dynamic_cast\<close>; every kind they do not look for is \<open>OtherNode\<close>. An import
  directive carries its identifier and its location, a contract definition its name.
\<close>

datatype ASTNode =
    ImportDirective string SourceLocation
  | ContractDefinition string
  | OtherNode

text \<open>The scanner of a source holds the character stream (the text) and the source's name.\<close>

record Scanner =
  sc_content :: string
  sc_name :: string

text \<open>
  \<open>CompilerStack::Source\<close>. The two shared pointers may be null, which is \<open>None\<close>;
  the AST of a parsed source is the list of its top-level nodes.
\<close>

record Source =
  scanner :: "Scanner option"
  ast :: "ASTNode list option"
  isLibrary :: bool

text \<open>
  The exceptions thrown by the modelled code. \<open>NullDereference\<close> stands for the undefined
  behaviour of going through a null shared pointer, \<open>OutOfRange\<close> for the
  \<open>std::out_of_range\<close> of \<open>std::map::at\<close>.
\<close>

datatype error =
    ParserError SourceLocation string
  | CompilerError string
  | InternalCompilerError string
  | NullDereference
  | OutOfRange

text \<open>
  \<open>m_sources\<close> is a \<open>std::map\<close> from names to sources: the list of its entries in iteration
  order, which is ascending key order. A pointer to a \<open>Source\<close> inside the map is the pair of
  its key and its value; two such pointers are equal exactly when their keys are, so the sets
  and vectors of source pointers hold keys.
\<close>

type_synonym sources = "(string \<times> Source) list"

text \<open>An \<open>eth::LinkerObject\<close>: the bytecode and the link references (offset to library name).\<close>

record LinkerObject =
  bytecode :: "8 word list"
  linkReferences :: "(nat \<times> string) list"

text \<open>
  \<open>CompilerStack::Contract\<close>, with the fields that the queries below read and write: the
  pointer to the contract's definition, the three objects, and the four documentation
  strings, which are lazily filled \<open>unique_ptr\<close> caches. The compiler instance and the
  interface handler are left to the code generator. The fields carry the prefix \<open>c_\<close>,
  since the queries of the stack bear the names of the fields.
\<close>

record Contract =
  c_contract :: "ASTNode option"
  c_object :: LinkerObject
  c_runtimeObject :: LinkerObject
  c_cloneObject :: LinkerObject
  c_userDocumentation :: "string option"
  c_devDocumentation :: "string option"
  c_interface :: "string option"
  c_solidityInterface :: "string option"

datatype GlobalContext = GlobalContext

record CompilerStack =
  m_parseSuccessful :: bool
  m_sources :: sources
  m_globalContext :: "GlobalContext option"
  m_sourceOrder :: "string list"
  m_contracts :: "(string \<times> Contract) list"

text \<open>
  The documentation kinds; \<open>IllegalDocumentationType\<close> is any other value of the enumeration
  type, the \<open>default\<close> label of the switch in \<open>metadata\<close>.
\<close>

datatype DocumentationType =
    NatspecUser
  | NatspecDev
  | ABIInterface
  | ABISolidityInterface
  | IllegalDocumentationType

section \<open>The standard sources\<close>

text \<open>The entries of the map \<open>StandardSources\<close>, in the order of their keys.\<close>

definition StandardSources :: "(string \<times> string) list" where
  \<open>StandardSources = [
    (''Coin'', ''contract Coin{function isApprovedFor(address _target,address _proxy)constant returns(bool _r){}function isApproved(address _proxy)constant returns(bool _r){}function sendCoinFrom(address _from,uint256 _val,address _to){}function coinBalanceOf(address _a)constant returns(uint256 _r){}function sendCoin(uint256 _val,address _to){}function coinBalance()constant returns(uint256 _r){}function approve(address _a){}}''),
    (''CoinReg'', ''contract CoinReg{function count()constant returns(uint256 r){}function info(uint256 i)constant returns(address addr,bytes3 name,uint256 denom){}function register(bytes3 name,uint256 denom){}function unregister(){}}''),
    (''Config'', ''contract Config{function lookup(uint256 service)constant returns(address a){}function kill(){}function unregister(uint256 id){}function register(uint256 id,address service){}}''),
    (''NameReg'', ''contract NameReg{function register(bytes32 name){}function addressOf(bytes32 name)constant returns(address addr){}function unregister(){}function nameOf(address addr)constant returns(bytes32 name){}}''),
    (''coin'', ''import "CoinReg";import "Config";import "configUser";contract coin is configUser{function coin(bytes3 name, uint denom) {CoinReg(Config(configAddr()).lookup(3)).register(name, denom);}}''),
    (''configUser'', ''contract configUser{function configAddr()constant returns(address a){ return 0xc6d9d2cd449a754c494264e1809c50e34d64562b;}}''),
    (''mortal'', ''import "owned";contract mortal is owned {function kill() { if (msg.sender == owner) suicide(owner); }}''),
    (''named'', ''import "Config";import "NameReg";import "configUser";contract named is configUser {function named(bytes32 name) {NameReg(Config(configAddr()).lookup(1)).register(name);}}''),
    (''owned'', ''contract owned{function owned(){owner = msg.sender;}modifier onlyowner(){if(msg.sender==owner)_}address owner;}''),
    (''service'', ''import "Config";import "configUser";contract service is configUser{function service(uint _n){Config(configAddr()).register(_n, this);}}''),
    (''std'', ''import "owned";import "mortal";import "Config";import "configUser";import "NameReg";import "named";'')]\<close>

section \<open>The source registry\<close>

text \<open>
  \<open>m[k]\<close> of a \<open>std::map\<close> followed by an assignment through the reference: the entry under
  \<open>k\<close> is found, or a default-constructed value \<open>d\<close> is inserted at the key's place in the
  order, and \<open>f\<close> is the assignment.
\<close>

fun map_subscript :: "'k::linorder \<Rightarrow> 'v \<Rightarrow> ('v \<Rightarrow> 'v) \<Rightarrow> ('k \<times> 'v) list \<Rightarrow> ('k \<times> 'v) list" where
  "map_subscript k d f [] = [(k, f d)]"
| "map_subscript k d f ((k', v) # r) =
     (if k = k' then (k', f v) # r
      else if k < k' then (k, f d) # (k', v) # r
      else (k', v) # map_subscript k d f r)"

definition defaultSource :: Source where
  "defaultSource = \<lparr>scanner = None, ast = None, isLibrary = False\<rparr>"

text \<open>
  \<open>reset(true, _)\<close>, the call of \<open>reset\<close> with \<open>_keepSources\<close> set. Its loop
  \<open>for (auto sourcePair: m_sources) sourcePair.second.reset()\<close> runs over copies of the
  entries, so the map keeps its entries, and a scanner, which a copy shares with its
  original, keeps its text.
\<close>

definition reset_keepSources :: "CompilerStack \<Rightarrow> CompilerStack" where
  "reset_keepSources st =
     st\<lparr>m_parseSuccessful := False, m_globalContext := None, m_sourceOrder := [], m_contracts := []\<rparr>"

definition addSource :: "CompilerStack \<Rightarrow> string \<Rightarrow> string \<Rightarrow> bool \<Rightarrow> bool \<times> CompilerStack" where
  "addSource st nm content lib =
     (let existed = (map_of (m_sources st) nm \<noteq> None);
          st1 = reset_keepSources st;
          st2 = st1\<lparr>m_sources := map_subscript nm defaultSource
                  (\<lambda>s. s\<lparr>scanner := Some \<lparr>sc_content = content, sc_name = nm\<rparr>\<rparr>) (m_sources st1)\<rparr>;
          st3 = st2\<lparr>m_sources := map_subscript nm defaultSource
                  (\<lambda>s. s\<lparr>isLibrary := lib\<rparr>) (m_sources st2)\<rparr>
      in (existed, st3))"

text \<open>
  Modelled from the spec: \<open>addSources\<close> is declared in the header of \<open>CompilerStack\<close>, which is
  not among the sources. It registers every entry of a name-to-content map through
  \<open>addSource\<close> with the given library flag.
\<close>

definition addSources :: "CompilerStack \<Rightarrow> (string \<times> string) list \<Rightarrow> bool \<Rightarrow> CompilerStack" where
  "addSources st nameContents lib =
     fold (\<lambda>(nm, content) s. snd (addSource s nm content lib)) nameContents st"

definition reset :: "bool \<Rightarrow> bool \<Rightarrow> CompilerStack \<Rightarrow> CompilerStack" where
  "reset keepSources addStandardSources st =
     (let st1 = st\<lparr>m_parseSuccessful := False\<rparr>;
          st2 = (if keepSources then st1
                 else (let st1' = st1\<lparr>m_sources := []\<rparr>
                       in if addStandardSources then addSources st1' StandardSources True else st1'))
      in st2\<lparr>m_globalContext := None, m_sourceOrder := [], m_contracts := []\<rparr>)"

text \<open>The constructor: the members are empty and the flag is false before its body runs.\<close>

definition CompilerStack_new :: "bool \<Rightarrow> CompilerStack" where
  "CompilerStack_new addStandardSources =
     (let st = \<lparr>m_parseSuccessful = False, m_sources = [], m_globalContext = None,
                m_sourceOrder = [], m_contracts = []\<rparr>
      in if addStandardSources then addSources st StandardSources True else st)"

section \<open>Import resolution\<close>

text \<open>
  The state of the depth-first search: \<open>sourcesSeen\<close> and \<open>sourceOrder\<close>, the two locals that
  the lambda \<open>toposort\<close> captures by reference. \<open>toposort_nodes\<close> is the loop of \<open>toposort\<close>
  over the nodes of the source.
\<close>

type_synonym toposort_state = "string set \<times> string list"

function toposort :: "sources \<Rightarrow> string \<times> Source \<Rightarrow> toposort_state \<Rightarrow> error + toposort_state"
  and toposort_nodes :: "sources \<Rightarrow> ASTNode list \<Rightarrow> toposort_state \<Rightarrow> error + toposort_state"
where
  "toposort srcs (nm, src) (sourcesSeen, sourceOrder) =
     (if nm \<in> sourcesSeen then Inr (sourcesSeen, sourceOrder)
      else case ast src of
          None \<Rightarrow> Inl NullDereference
        | Some nodes \<Rightarrow>
            (case toposort_nodes srcs nodes (insert nm sourcesSeen, sourceOrder) of
               Inl e \<Rightarrow> Inl e
             | Inr (seen', order') \<Rightarrow> Inr (seen', order' @ [nm])))"
| "toposort_nodes srcs [] st = Inr st"
| "toposort_nodes srcs (node # rest) st =
     (case node of
        ImportDirective ident loc \<Rightarrow>
          (case map_of srcs ident of
             None \<Rightarrow> Inl (ParserError loc ''Source not found.'')
           | Some s \<Rightarrow>
               (case toposort srcs (ident, s) st of
                  Inl e \<Rightarrow> Inl e
                | Inr st' \<Rightarrow> toposort_nodes srcs rest st'))
      | _ \<Rightarrow> toposort_nodes srcs rest st)"
  by pat_completeness auto

text \<open>The loop of \<open>resolveImports\<close> over the entries of \<open>m_sources\<close>: the roots.\<close>

fun toposort_roots :: "sources \<Rightarrow> sources \<Rightarrow> toposort_state \<Rightarrow> error + toposort_state" where
  "toposort_roots srcs [] st = Inr st"
| "toposort_roots srcs ((nm, src) # rest) st =
     (if \<not> isLibrary src then
        (case toposort srcs (nm, src) st of
           Inl e \<Rightarrow> Inl e
         | Inr st' \<Rightarrow> toposort_roots srcs rest st')
      else toposort_roots srcs rest st)"

text \<open>The source order that \<open>resolveImports\<close> computes from the source map.\<close>

definition resolveImports_order :: "sources \<Rightarrow> error + string list" where
  "resolveImports_order srcs =
     (case toposort_roots srcs srcs ({}, []) of
        Inl e \<Rightarrow> Inl e
      | Inr (sourcesSeen, sourceOrder) \<Rightarrow> Inr sourceOrder)"

text \<open>\<open>resolveImports\<close>: on success the order is swapped into \<open>m_sourceOrder\<close>.\<close>

definition resolveImports :: "CompilerStack \<Rightarrow> error + CompilerStack" where
  "resolveImports st =
     (case resolveImports_order (m_sources st) of
        Inl e \<Rightarrow> Inl e
      | Inr sourceOrder \<Rightarrow> Inr (st\<lparr>m_sourceOrder := sourceOrder\<rparr>))"

subsection \<open>The import graph\<close>

text \<open>
  There is an import edge from \<open>a\<close> to \<open>b\<close> when the source stored under \<open>a\<close> has an import
  directive with identifier \<open>b\<close> among its nodes.
\<close>

definition importEdges :: "sources \<Rightarrow> (string \<times> string) set" where
  "importEdges srcs =
     {(a, b). \<exists>s nodes loc. map_of srcs a = Some s \<and> ast s = Some nodes
                \<and> ImportDirective b loc \<in> set nodes}"

text \<open>The roots of the search: the names of the sources that are not libraries.\<close>

definition rootNames :: "sources \<Rightarrow> string set" where
  "rootNames srcs = {r. \<exists>s. (r, s) \<in> set srcs \<and> \<not> isLibrary s}"

text \<open>The sources reachable from a root through import edges.\<close>

definition reachableSources :: "sources \<Rightarrow> string set" where
  "reachableSources srcs = (importEdges srcs)\<^sup>* `` rootNames srcs"

text \<open>\<open>b\<close> occurs in \<open>xs\<close> before the first occurrence of \<open>a\<close>.\<close>

definition precedes :: "'a list \<Rightarrow> 'a \<Rightarrow> 'a \<Rightarrow> bool" where
  "precedes xs b a = (a \<in> set xs \<and> b \<in> set (takeWhile (\<lambda>x. x \<noteq> a) xs))"

text \<open>Every source of the map has been parsed: its AST pointer is set.\<close>

definition allParsed :: "sources \<Rightarrow> bool" where
  "allParsed srcs = list_all (\<lambda>(nm, s). ast s \<noteq> None) srcs"

text \<open>
  An import that cannot be resolved: the source stored under \<open>a\<close> has an import directive
  at \<open>loc\<close> whose identifier \<open>b\<close> is not a key of the map.
\<close>

definition missingImport :: "sources \<Rightarrow> string \<Rightarrow> string \<Rightarrow> SourceLocation \<Rightarrow> bool" where
  "missingImport srcs a b loc =
     (\<exists>s nodes. map_of srcs a = Some s \<and> ast s = Some nodes
        \<and> ImportDirective b loc \<in> set nodes \<and> map_of srcs b = None)"

text \<open>
  The invariant of the search. The sources \<open>new\<close> appended to the order by a call that
  started with the set \<open>seen\<close> are distinct keys of the map outside \<open>seen\<close>, and every import
  \<open>b\<close> of a new source \<open>a\<close> has been seen before the call or is new as well; it has been seen
  before the call, or is in the order before \<open>a\<close>, or imports \<open>a\<close> back along some path.
\<close>

definition dfsExtends :: "sources \<Rightarrow> string set \<Rightarrow> string list \<Rightarrow> bool" where
  "dfsExtends srcs seen new =
     (distinct new \<and> set new \<inter> seen = {} \<and> set new \<subseteq> fst ` set srcs
      \<and> (\<forall>a\<in>set new. \<forall>b. (a, b) \<in> importEdges srcs \<longrightarrow>
            (b \<in> seen \<or> b \<in> set new)
          \<and> (b \<in> seen \<or> precedes new b a \<or> (b, a) \<in> (importEdges srcs)\<^sup>*)))"

text \<open>
  The exceptions that a search started at source \<open>a0\<close> can end with: some source reachable
  from \<open>a0\<close> has no AST, or has an import that cannot be resolved, and the error is the
  parser error at the location of that import.
\<close>

definition importFailure :: "sources \<Rightarrow> string \<Rightarrow> error \<Rightarrow> bool" where
  "importFailure srcs a0 e =
     (\<exists>a. (a0, a) \<in> (importEdges srcs)\<^sup>*
        \<and> ((\<exists>s. map_of srcs a = Some s \<and> ast s = None \<and> e = NullDereference)
           \<or> (\<exists>b loc. missingImport srcs a b loc \<and> e = ParserError loc ''Source not found.'')))"

subsection \<open>The calls of the search\<close>

text \<open>
  The calls that make up a run of \<open>resolveImports\<close>: the loop over the roots at some list of
  remaining entries, \<open>toposort\<close> at some source, and the loop of \<open>toposort\<close> at some list of
  remaining nodes, each with the state it starts in.
\<close>

datatype searchCall =
    VisitRoots sources toposort_state
  | VisitSource "string \<times> Source" toposort_state
  | VisitNodes "ASTNode list" toposort_state

text \<open>The outcome of a call.\<close>

fun runCall :: "sources \<Rightarrow> searchCall \<Rightarrow> error + toposort_state" where
  "runCall srcs (VisitRoots roots st) = toposort_roots srcs roots st"
| "runCall srcs (VisitSource p st) = toposort srcs p st"
| "runCall srcs (VisitNodes nodes st) = toposort_nodes srcs nodes st"

text \<open>
  One step of the control flow: carrying out the first call, the search comes to carry out
  the second. The loops go on to their next element only when the call made for the current
  element has returned; an import directive whose identifier is not a key of the map leads
  nowhere, since the exception is thrown there.
\<close>

inductive searchStep :: "sources \<Rightarrow> searchCall \<Rightarrow> searchCall \<Rightarrow> bool" for srcs where
  root_visit:
    "\<not> isLibrary src \<Longrightarrow>
       searchStep srcs (VisitRoots ((nm, src) # rest) st) (VisitSource (nm, src) st)"
| root_next:
    "\<not> isLibrary src \<Longrightarrow> toposort srcs (nm, src) st = Inr st' \<Longrightarrow>
       searchStep srcs (VisitRoots ((nm, src) # rest) st) (VisitRoots rest st')"
| root_skip:
    "isLibrary src \<Longrightarrow>
       searchStep srcs (VisitRoots ((nm, src) # rest) st) (VisitRoots rest st)"
| source_nodes:
    "nm \<notin> sourcesSeen \<Longrightarrow> ast src = Some nodes \<Longrightarrow>
       searchStep srcs (VisitSource (nm, src) (sourcesSeen, sourceOrder))
         (VisitNodes nodes (insert nm sourcesSeen, sourceOrder))"
| import_visit:
    "map_of srcs ident = Some s \<Longrightarrow>
       searchStep srcs (VisitNodes (ImportDirective ident loc # rest) st) (VisitSource (ident, s) st)"
| import_next:
    "map_of srcs ident = Some s \<Longrightarrow> toposort srcs (ident, s) st = Inr st' \<Longrightarrow>
       searchStep srcs (VisitNodes (ImportDirective ident loc # rest) st) (VisitNodes rest st')"
| contract_next:
    "searchStep srcs (VisitNodes (ContractDefinition c # rest) st) (VisitNodes rest st)"
| other_next:
    "searchStep srcs (VisitNodes (OtherNode # rest) st) (VisitNodes rest st)"

text \<open>The calls that the search started by \<open>resolveImports\<close> on the source map comes to.\<close>

definition searchReaches :: "sources \<Rightarrow> searchCall \<Rightarrow> bool" where
  "searchReaches srcs c = (searchStep srcs)\<^sup>*\<^sup>* (VisitRoots srcs ({}, [])) c"

text \<open>
  Where a call stands in the source map: the roots still to come are entries of the map, a
  visited source is an entry reachable from a root, and the nodes still to come are the rest
  of the nodes of such a source.
\<close>

fun wellPlaced :: "sources \<Rightarrow> searchCall \<Rightarrow> bool" where
  "wellPlaced srcs (VisitRoots roots st) = (set roots \<subseteq> set srcs)"
| "wellPlaced srcs (VisitSource (nm, src) st) =
     (map_of srcs nm = Some src \<and> nm \<in> reachableSources srcs)"
| "wellPlaced srcs (VisitNodes nodes st) =
     (\<exists>a s pre. map_of srcs a = Some s \<and> ast s = Some (pre @ nodes)
        \<and> a \<in> reachableSources srcs)"

section \<open>Contract queries\<close>

definition contractNames :: "CompilerStack \<Rightarrow> error + string list" where
  "contractNames st =
     (if \<not> m_parseSuccessful st then Inl (CompilerError ''Parsing was not successful.'')
      else Inr (map fst (m_contracts st)))"

text \<open>
  The inner loop of \<open>contract\<close>: every contract definition among the nodes overwrites the
  name found so far.
\<close>

fun lastContractName :: "ASTNode list \<Rightarrow> string \<Rightarrow> string" where
  "lastContractName [] contractName = contractName"
| "lastContractName (ContractDefinition c # rest) contractName = lastContractName rest c"
| "lastContractName (node # rest) contractName = lastContractName rest contractName"

text \<open>
  The outer loop of \<open>contract\<close> over \<open>m_sources\<close>, which skips the sources whose name is a key
  of \<open>StandardSources\<close>.
\<close>

fun userContractName :: "sources \<Rightarrow> string \<Rightarrow> error + string" where
  "userContractName [] contractName = Inr contractName"
| "userContractName ((nm, src) # rest) contractName =
     (if map_of StandardSources nm = None then
        (case ast src of
           None \<Rightarrow> Inl NullDereference
         | Some nodes \<Rightarrow> userContractName rest (lastContractName nodes contractName))
      else userContractName rest contractName)"

text \<open>The name under which \<open>contract\<close> looks the record up.\<close>

definition contractKey :: "CompilerStack \<Rightarrow> string \<Rightarrow> error + string" where
  "contractKey st nm =
     (if nm = [] then userContractName (m_sources st) nm else Inr nm)"

definition contract :: "CompilerStack \<Rightarrow> string \<Rightarrow> error + Contract" where
  "contract st nm =
     (if m_contracts st = [] then Inl (CompilerError ''No compiled contracts found.'')
      else case contractKey st nm of
          Inl e \<Rightarrow> Inl e
        | Inr contractName \<Rightarrow>
            (case map_of (m_contracts st) contractName of
               None \<Rightarrow> Inl (CompilerError (''Contract '' @ nm @ '' not found.''))
             | Some c \<Rightarrow> Inr c))"

definition object :: "CompilerStack \<Rightarrow> string \<Rightarrow> error + LinkerObject" where
  "object st nm = (case contract st nm of Inl e \<Rightarrow> Inl e | Inr c \<Rightarrow> Inr (c_object c))"

definition runtimeObject :: "CompilerStack \<Rightarrow> string \<Rightarrow> error + LinkerObject" where
  "runtimeObject st nm =
     (case contract st nm of Inl e \<Rightarrow> Inl e | Inr c \<Rightarrow> Inr (c_runtimeObject c))"

definition cloneObject :: "CompilerStack \<Rightarrow> string \<Rightarrow> error + LinkerObject" where
  "cloneObject st nm =
     (case contract st nm of Inl e \<Rightarrow> Inl e | Inr c \<Rightarrow> Inr (c_cloneObject c))"

definition contractDefinition :: "CompilerStack \<Rightarrow> string \<Rightarrow> error + ASTNode" where
  "contractDefinition st nm =
     (case contract st nm of
        Inl e \<Rightarrow> Inl e
      | Inr c \<Rightarrow> (case c_contract c of None \<Rightarrow> Inl NullDereference | Some d \<Rightarrow> Inr d))"

text \<open>
  \<open>contractCodeHash\<close>; the 256-bit hash function \<open>dev::sha3\<close> of the core library is the
  parameter \<open>sha3\<close>, and \<open>dev::h256()\<close> is the zero hash.
\<close>

definition contractCodeHash ::
  "(8 word list \<Rightarrow> 256 word) \<Rightarrow> CompilerStack \<Rightarrow> string \<Rightarrow> error + 256 word" where
  "contractCodeHash sha3 st nm =
     (case runtimeObject st nm of
        Inl e \<Rightarrow> Inl e
      | Inr obj \<Rightarrow>
          (if bytecode obj = [] \<or> linkReferences obj \<noteq> [] then Inr 0
           else Inr (sha3 (bytecode obj))))"

text \<open>
  \<open>metadata\<close>. The interface handler's \<open>documentation\<close> is the parameter of that name. The
  result is the documentation string and the stack with the string cached in the contract's
  record.
\<close>

definition cachedDocumentation :: "Contract \<Rightarrow> DocumentationType \<Rightarrow> error + string option" where
  "cachedDocumentation c ty =
     (case ty of
        NatspecUser \<Rightarrow> Inr (c_userDocumentation c)
      | NatspecDev \<Rightarrow> Inr (c_devDocumentation c)
      | ABIInterface \<Rightarrow> Inr (c_interface c)
      | ABISolidityInterface \<Rightarrow> Inr (c_solidityInterface c)
      | IllegalDocumentationType \<Rightarrow> Inl (InternalCompilerError ''Illegal documentation type.''))"

definition cacheDocumentation :: "Contract \<Rightarrow> DocumentationType \<Rightarrow> string \<Rightarrow> Contract" where
  "cacheDocumentation c ty doc =
     (case ty of
        NatspecUser \<Rightarrow> c\<lparr>c_userDocumentation := Some doc\<rparr>
      | NatspecDev \<Rightarrow> c\<lparr>c_devDocumentation := Some doc\<rparr>
      | ABIInterface \<Rightarrow> c\<lparr>c_interface := Some doc\<rparr>
      | ABISolidityInterface \<Rightarrow> c\<lparr>c_solidityInterface := Some doc\<rparr>
      | IllegalDocumentationType \<Rightarrow> c)"

definition metadata ::
  "(ASTNode \<Rightarrow> DocumentationType \<Rightarrow> string) \<Rightarrow> CompilerStack \<Rightarrow> string \<Rightarrow> DocumentationType
     \<Rightarrow> error + string \<times> CompilerStack" where
  "metadata documentation st nm ty =
     (if \<not> m_parseSuccessful st then Inl (CompilerError ''Parsing was not successful.'')
      else case contract st nm of
          Inl e \<Rightarrow> Inl e
        | Inr currentContract \<Rightarrow>
            (case cachedDocumentation currentContract ty of
               Inl e \<Rightarrow> Inl e
             | Inr (Some doc) \<Rightarrow> Inr (doc, st)
             | Inr None \<Rightarrow>
                 (case c_contract currentContract of
                    None \<Rightarrow> Inl NullDereference
                  | Some d \<Rightarrow>
                      (let doc = documentation d ty;
                           key = (case contractKey st nm of Inr k \<Rightarrow> k | Inl e \<Rightarrow> nm)
                       in Inr (doc, st\<lparr>m_contracts :=
                            map (\<lambda>(k, c). if k = key then (k, cacheDocumentation c ty doc) else (k, c))
                              (m_contracts st)\<rparr>)))))"

definition interface ::
  "(ASTNode \<Rightarrow> DocumentationType \<Rightarrow> string) \<Rightarrow> CompilerStack \<Rightarrow> string
     \<Rightarrow> error + string \<times> CompilerStack" where
  "interface documentation st nm = metadata documentation st nm ABIInterface"

definition solidityInterface ::
  "(ASTNode \<Rightarrow> DocumentationType \<Rightarrow> string) \<Rightarrow> CompilerStack \<Rightarrow> string
     \<Rightarrow> error + string \<times> CompilerStack" where
  "solidityInterface documentation st nm = metadata documentation st nm ABISolidityInterface"

text \<open>The names of the contract definitions among the nodes of a source, in node order.\<close>

definition contractNamesOf :: "ASTNode list \<Rightarrow> string list" where
  "contractNamesOf nodes =
     concat (map (\<lambda>node. case node of ContractDefinition c \<Rightarrow> [c] | _ \<Rightarrow> []) nodes)"

text \<open>
  The names of the contract definitions of the sources that \<open>contract\<close> does not skip, in the
  order in which its loops meet them: the sources in key order, the nodes in node order.
\<close>

definition userContractNames :: "sources \<Rightarrow> string list" where
  "userContractNames srcs =
     concat (map (\<lambda>(nm, src). case ast src of None \<Rightarrow> [] | Some nodes \<Rightarrow> contractNamesOf nodes)
              (filter (\<lambda>(nm, src). map_of StandardSources nm = None) srcs))"

section \<open>The IR generation context\<close>

text \<open>
  A pointer to a function definition is null, which is \<open>None\<close>, or points to a definition,
  of which the comparator reads the \<open>id()\<close>, the field \<open>id'\<close>.
\<close>

record FunctionDefinition =
  id' :: int

definition AscendingFunctionIDCompare ::
  "FunctionDefinition option \<Rightarrow> FunctionDefinition option \<Rightarrow> bool" where
  "AscendingFunctionIDCompare f1 f2 =
     (case (f1, f2) of
        (Some d1, Some d2) \<Rightarrow> id' d1 < id' d2
      | _ \<Rightarrow> f1 = None)"

text \<open>
  The state variables of the context: \<open>m_stateVariables\<close> maps the address of a variable
  declaration to its storage slot (a \<open>u256\<close>) and its byte offset (an \<open>unsigned\<close>).
\<close>

type_synonym VariableDeclaration_ptr = nat

record IRGenerationContext =
  m_stateVariables :: "VariableDeclaration_ptr \<rightharpoonup> 256 word \<times> 32 word"

definition isStateVariable :: "IRGenerationContext \<Rightarrow> VariableDeclaration_ptr \<Rightarrow> bool" where
  "isStateVariable ctx varDecl = (m_stateVariables ctx varDecl \<noteq> None)"

text \<open>
  Modelled from the spec: the macro \<open>solAssert\<close> is defined outside the sources. A failed
  assertion is a fatal internal error, the exception \<open>InternalCompilerError\<close>, with the
  description given to the macro.
\<close>

definition solAssert :: "bool \<Rightarrow> string \<Rightarrow> error + unit" where
  "solAssert condition description =
     (if condition then Inr () else Inl (InternalCompilerError description))"

definition storageLocationOfStateVariable ::
  "IRGenerationContext \<Rightarrow> VariableDeclaration_ptr \<Rightarrow> error + 256 word \<times> 32 word" where
  "storageLocationOfStateVariable ctx varDecl =
     (case solAssert (isStateVariable ctx varDecl) [] of
        Inl e \<Rightarrow> Inl e
      | Inr u \<Rightarrow>
          (case m_stateVariables ctx varDecl of
             None \<Rightarrow> Inl OutOfRange
           | Some location \<Rightarrow> Inr location))"

section \<open>The relative program size metric\<close>











section \<open>Example states\<close>

text \<open>Concrete sources, records and stacks at which the theorems below are instantiated.\<close>

definition parsedSource :: "ASTNode list \<Rightarrow> bool \<Rightarrow> Source" where
  "parsedSource nodes lib = \<lparr>scanner = None, ast = Some nodes, isLibrary = lib\<rparr>"

definition emptyObject :: LinkerObject where
  "emptyObject = \<lparr>bytecode = [], linkReferences = []\<rparr>"

definition contractRecord :: "string \<Rightarrow> LinkerObject \<Rightarrow> Contract" where
  "contractRecord c rt = \<lparr>c_contract = Some (ContractDefinition c), c_object = emptyObject,
     c_runtimeObject = rt, c_cloneObject = emptyObject, c_userDocumentation = None,
     c_devDocumentation = None, c_interface = None, c_solidityInterface = None\<rparr>"

text \<open>A stand-in for the hash function, which is nonzero on the bytecode of the example.\<close>

definition toyHash :: "8 word list \<Rightarrow> 256 word" where
  "toyHash bs = of_nat (length bs)"

text \<open>A stack with one source already registered.\<close>

definition stack0 :: CompilerStack where
  "stack0 = snd (addSource (CompilerStack_new False) ''m'' ''contract M {}'' False)"

text \<open>
  A compiled stack: source \<open>a\<close> defines the contracts \<open>A\<close>, whose runtime bytecode is sealed,
  and \<open>B\<close>, whose runtime bytecode has a link reference.
\<close>

definition hashStack :: CompilerStack where
  "hashStack = \<lparr>m_parseSuccessful = True,
     m_sources = [(''a'', parsedSource [ContractDefinition ''A'', ContractDefinition ''B''] False)],
     m_globalContext = Some GlobalContext, m_sourceOrder = [''a''],
     m_contracts = [(''A'', contractRecord ''A'' \<lparr>bytecode = [0x60, 0x80], linkReferences = []\<rparr>),
                    (''B'', contractRecord ''B'' \<lparr>bytecode = [0x73], linkReferences = [(1, ''L'')]\<rparr>)]\<rparr>"

text \<open>
  The stack that \<open>parse\<close> leaves behind when the resolver throws at contract \<open>B\<close> of source
  \<open>a\<close>: the record of \<open>A\<close> has been entered into \<open>m_contracts\<close>, and \<open>m_parseSuccessful\<close>,
  which is set in the last statement of \<open>parse\<close> only, is still false.
\<close>

definition partialStack :: CompilerStack where
  "partialStack = \<lparr>m_parseSuccessful = False,
     m_sources = [(''a'', parsedSource [ContractDefinition ''A'', ContractDefinition ''B''] False)],
     m_globalContext = Some GlobalContext, m_sourceOrder = [''a''],
     m_contracts = [(''A'', contractRecord ''A'' emptyObject)]\<rparr>"

text \<open>
  The stack after \<open>parse\<close> of two sources added by the user: \<open>a\<close> with contract \<open>A\<close>, and
  \<open>z\<close> with contract \<open>Z\<close>, added with the library flag and imported by nobody. \<open>parse\<close> gives
  every source its AST, but registers the contracts of the sources in \<open>m_sourceOrder\<close> only.
\<close>

definition libraryStack :: CompilerStack where
  "libraryStack = \<lparr>m_parseSuccessful = True,
     m_sources = [(''a'', parsedSource [ContractDefinition ''A''] False),
                  (''z'', parsedSource [ContractDefinition ''Z''] True)],
     m_globalContext = Some GlobalContext, m_sourceOrder = [''a''],
     m_contracts = [(''A'', contractRecord ''A'' emptyObject)]\<rparr>"

text \<open>A stack that holds the given parsed sources and nothing else.\<close>

definition stackOfSources :: "sources \<Rightarrow> CompilerStack" where
  "stackOfSources srcs = \<lparr>m_parseSuccessful = False, m_sources = srcs, m_globalContext = None,
     m_sourceOrder = [], m_contracts = []\<rparr>"

text \<open>The location of an import directive at the start of the source of the given name.\<close>

definition importLocation :: "string \<Rightarrow> SourceLocation" where
  "importLocation nm = \<lparr>loc_start = 0, loc_end = 11, sourceName = nm\<rparr>"

text \<open>Source \<open>User\<close> imports source \<open>Lib\<close>.\<close>

definition libUserSources :: sources where
  "libUserSources =
     [(''Lib'', parsedSource [ContractDefinition ''L''] False),
      (''User'', parsedSource [ImportDirective ''Lib'' (importLocation ''User''),
                               ContractDefinition ''U''] False)]"


text \<open>The same cycle, and a library \<open>L\<close> that imports \<open>A\<close> and that nobody imports.\<close>

definition cyclicLibrarySources :: sources where
  "cyclicLibrarySources =
     [(''A'', parsedSource [ImportDirective ''B'' (importLocation ''A'')] False),
      (''B'', parsedSource [ImportDirective ''A'' (importLocation ''B'')] False),
      (''L'', parsedSource [ImportDirective ''A'' (importLocation ''L'')] True)]"

text \<open>A single source that imports a source that is not in the map.\<close>

definition missingSources :: sources where
  "missingSources = [(''A'', parsedSource [ImportDirective ''Nope'' (importLocation ''A'')] False)]"

text \<open>A single source with two imports of sources that are not in the map.\<close>

definition twoMissingSources :: sources where
  "twoMissingSources =
     [(''A'', parsedSource
         [ImportDirective ''Nope1'' \<lparr>loc_start = 0, loc_end = 15, sourceName = ''A''\<rparr>,
          ImportDirective ''Nope2'' \<lparr>loc_start = 15, loc_end = 30, sourceName = ''A''\<rparr>] False)]"




section \<open>Termination of the depth-first search\<close>

text \<open>The set of seen sources only grows; the termination of the loop rests on it.\<close>

lemma toposort_seen_mono_dom:
  "toposort_toposort_nodes_dom (Inl (srcs, p, st)) \<Longrightarrow> toposort srcs p st = Inr st'
     \<Longrightarrow> fst st \<subseteq> fst st'"
  "toposort_toposort_nodes_dom (Inr (srcs, ns, st)) \<Longrightarrow> toposort_nodes srcs ns st = Inr st'
     \<Longrightarrow> fst st \<subseteq> fst st'"
proof (induction srcs p st and srcs ns st arbitrary: st' and st'
    rule: toposort_toposort_nodes.pinduct)
  case (1 srcs nm src sourcesSeen sourceOrder)
  show ?case
  proof (cases "nm \<in> sourcesSeen")
    case True
    with 1(1,3) show ?thesis by (simp add: toposort.psimps)
  next
    case False
    with 1(1,3) obtain nodes seen' order' where
      a: "ast src = Some nodes"
      and r: "toposort_nodes srcs nodes (insert nm sourcesSeen, sourceOrder) = Inr (seen', order')"
      and s: "st' = (seen', order' @ [nm])"
      by (auto simp: toposort.psimps split: option.splits sum.splits)
    from 1(2)[OF False a r] s show ?thesis by auto
  qed
next
  case (2 srcs st)
  then show ?case by (simp add: toposort_nodes.psimps)
next
  case (3 srcs node rest st)
  show ?case
  proof (cases node)
    case (ImportDirective ident loc)
    with 3(1,6) obtain s st1 where
      m: "map_of srcs ident = Some s"
      and t: "toposort srcs (ident, s) st = Inr st1"
      and r: "toposort_nodes srcs rest st1 = Inr st'"
      by (auto simp: toposort_nodes.psimps split: option.splits sum.splits)
    from 3(2)[OF ImportDirective m t] 3(3)[OF ImportDirective m t r] show ?thesis by blast
  next
    case (ContractDefinition c)
    with 3(1,6) have "toposort_nodes srcs rest st = Inr st'"
      by (simp add: toposort_nodes.psimps)
    from 3(4)[OF ContractDefinition this] show ?thesis .
  next
    case OtherNode
    with 3(1,6) have "toposort_nodes srcs rest st = Inr st'"
      by (simp add: toposort_nodes.psimps)
    from 3(5)[OF OtherNode this] show ?thesis .
  qed
qed

lemma card_unseen_insert:
  assumes "finite K" "nm \<notin> seen"
  shows "card (K - insert nm seen) < card (insert nm K - seen)"
proof -
  have "insert nm K - seen = insert nm (K - insert nm seen)" using assms(2) by auto
  moreover have "nm \<notin> K - insert nm seen" by simp
  moreover have "finite (K - insert nm seen)" using assms(1) by simp
  ultimately show ?thesis by simp
qed

text \<open>
  Each call either marks a new key of the map as seen or goes on with a shorter list of
  nodes, so the search ends on every source map, cyclic or not.
\<close>

termination toposort
  apply (relation "inv_image (less_than <*lex*> less_than)
     (\<lambda>x. case x of
        Inl (srcs, (nm, src), (seen, ord)) \<Rightarrow> (card (insert nm (fst ` set srcs) - seen), 0)
      | Inr (srcs, nodes, (seen, ord)) \<Rightarrow> (card (fst ` set srcs - seen), Suc (length nodes)))")
  subgoal by (intro wf_inv_image wf_lex_prod wf_less_than)
  subgoal by (simp add: card_unseen_insert)
  subgoal for srcs node rest st ident loc s
  proof -
    assume "map_of srcs ident = Some s"
    then have "ident \<in> fst ` set srcs" by (metis map_of_SomeD fst_conv image_eqI)
    then have "insert ident (fst ` set srcs) = fst ` set srcs" by auto
    then show ?thesis by (cases st) simp
  qed
  subgoal for srcs node rest st ident loc s st'
  proof -
    assume "toposort srcs (ident, s) st = Inr st'"
      and "toposort_toposort_nodes_dom (Inl (srcs, (ident, s), st))"
    then have "fst st \<subseteq> fst st'" by (rule toposort_seen_mono_dom(1)[rotated])
    then have "card (fst ` set srcs - fst st') \<le> card (fst ` set srcs - fst st)"
      by (intro card_mono) auto
    then show ?thesis by (cases st; cases st') auto
  qed
  subgoal for srcs node rest st by (cases st) simp
  subgoal for srcs node rest st by (cases st) simp
  done

section \<open>The invariant of the depth-first search\<close>

lemma precedes_append_left: "precedes xs b a \<Longrightarrow> precedes (xs @ ys) b a"
  by (auto simp: precedes_def takeWhile_append1)

lemma takeWhile_neq_append:
  "a \<notin> set xs \<Longrightarrow> takeWhile (\<lambda>x. x \<noteq> a) (xs @ ys) = xs @ takeWhile (\<lambda>x. x \<noteq> a) ys"
  by (rule takeWhile_append2) auto

lemma precedes_append_right: "a \<notin> set xs \<Longrightarrow> precedes ys b a \<Longrightarrow> precedes (xs @ ys) b a"
  by (auto simp: precedes_def takeWhile_neq_append)

lemma precedes_across: "b \<in> set xs \<Longrightarrow> a \<notin> set xs \<Longrightarrow> a \<in> set ys \<Longrightarrow> precedes (xs @ ys) b a"
  by (auto simp: precedes_def takeWhile_neq_append)

text \<open>The invariant holds of the empty extension, is kept by running one search after another,
  and by appending a source once the search of its imports is over.\<close>

lemma dfsExtends_Nil: "dfsExtends srcs seen []"
  by (simp add: dfsExtends_def)

lemma dfsExtends_append:
  assumes 1: "dfsExtends srcs seen new1" and 2: "dfsExtends srcs (seen \<union> set new1) new2"
  shows "dfsExtends srcs seen (new1 @ new2)"
proof -
  let ?E = "importEdges srcs"
  from 1 2 have d: "distinct (new1 @ new2)" and i: "set (new1 @ new2) \<inter> seen = {}"
    and k: "set (new1 @ new2) \<subseteq> fst ` set srcs" and disj: "set new1 \<inter> set new2 = {}"
    by (auto simp: dfsExtends_def)
  have "(b \<in> seen \<or> b \<in> set (new1 @ new2))
      \<and> (b \<in> seen \<or> precedes (new1 @ new2) b a \<or> (b, a) \<in> ?E\<^sup>*)"
    if a: "a \<in> set (new1 @ new2)" and e: "(a, b) \<in> ?E" for a b
  proof (cases "a \<in> set new1")
    case True
    with 1 e have "b \<in> seen \<or> b \<in> set new1" "b \<in> seen \<or> precedes new1 b a \<or> (b, a) \<in> ?E\<^sup>*"
      by (auto simp: dfsExtends_def)
    then show ?thesis using precedes_append_left by fastforce
  next
    case False
    with a have a2: "a \<in> set new2" by simp
    with 2 e have c1: "b \<in> seen \<union> set new1 \<or> b \<in> set new2"
      and c2: "b \<in> seen \<union> set new1 \<or> precedes new2 b a \<or> (b, a) \<in> ?E\<^sup>*"
      by (auto simp: dfsExtends_def)
    from c1 have "b \<in> seen \<or> b \<in> set (new1 @ new2)" by auto
    moreover from c2 have "b \<in> seen \<or> precedes (new1 @ new2) b a \<or> (b, a) \<in> ?E\<^sup>*"
      using False a2 precedes_across[of b new1 a new2] precedes_append_right[of a new1 new2 b]
      by blast
    ultimately show ?thesis ..
  qed
  with d i k show ?thesis unfolding dfsExtends_def by blast
qed

lemma dfsExtends_finish:
  assumes 1: "dfsExtends srcs (insert nm seen) new" and n: "nm \<notin> seen"
    and key: "nm \<in> fst ` set srcs"
    and r: "\<forall>a\<in>set new. (nm, a) \<in> (importEdges srcs)\<^sup>*"
    and c: "\<forall>b. (nm, b) \<in> importEdges srcs \<longrightarrow> b \<in> insert nm seen \<union> set new"
  shows "dfsExtends srcs seen (new @ [nm])"
proof -
  let ?E = "importEdges srcs"
  from 1 have nn: "nm \<notin> set new" by (auto simp: dfsExtends_def)
  from 1 n nn key have d: "distinct (new @ [nm])" and i: "set (new @ [nm]) \<inter> seen = {}"
    and k: "set (new @ [nm]) \<subseteq> fst ` set srcs"
    by (auto simp: dfsExtends_def)
  have "(b \<in> seen \<or> b \<in> set (new @ [nm]))
      \<and> (b \<in> seen \<or> precedes (new @ [nm]) b a \<or> (b, a) \<in> ?E\<^sup>*)"
    if a: "a \<in> set (new @ [nm])" and e: "(a, b) \<in> ?E" for a b
  proof (cases "a = nm")
    case True
    from c e True have "b \<in> seen \<or> b = nm \<or> b \<in> set new" by auto
    then show ?thesis
      using True nn precedes_across[of b new nm "[nm]"] by auto
  next
    case False
    with a have a1: "a \<in> set new" by simp
    with 1 e have c1: "b \<in> insert nm seen \<or> b \<in> set new"
      and c2: "b \<in> insert nm seen \<or> precedes new b a \<or> (b, a) \<in> ?E\<^sup>*"
      by (auto simp: dfsExtends_def)
    from r a1 have "(nm, a) \<in> ?E\<^sup>*" by blast
    with c1 c2 show ?thesis using precedes_append_left[of new b a "[nm]"] by auto
  qed
  with d i k show ?thesis unfolding dfsExtends_def by blast
qed


lemma importEdges_I:
  "map_of srcs a = Some s \<Longrightarrow> ast s = Some nodes \<Longrightarrow> ImportDirective b loc \<in> set nodes
     \<Longrightarrow> (a, b) \<in> importEdges srcs"
  by (auto simp: importEdges_def)

lemma importEdges_D:
  "(a, b) \<in> importEdges srcs \<Longrightarrow> map_of srcs a = Some s \<Longrightarrow> ast s = Some nodes
     \<Longrightarrow> \<exists>loc. ImportDirective b loc \<in> set nodes"
  by (auto simp: importEdges_def)

text \<open>
  What a successful call does: it appends new sources to the order and adds the same
  sources to the seen set, with the invariant; the source it was called for is seen
  afterwards, and every new source is reachable from it (for the loop: from an import of the
  nodes it ran over, which are all seen afterwards).
\<close>

lemma toposort_invariant:
  "map_of srcs (fst p) = Some (snd p) \<Longrightarrow> toposort srcs p st = Inr st' \<Longrightarrow>
     \<exists>new. snd st' = snd st @ new \<and> fst st' = fst st \<union> set new
        \<and> dfsExtends srcs (fst st) new \<and> fst p \<in> fst st'
        \<and> (\<forall>a\<in>set new. (fst p, a) \<in> (importEdges srcs)\<^sup>*)"
  "toposort_nodes srcs nodes st = Inr st' \<Longrightarrow>
     \<exists>new. snd st' = snd st @ new \<and> fst st' = fst st \<union> set new
        \<and> dfsExtends srcs (fst st) new
        \<and> (\<forall>b loc. ImportDirective b loc \<in> set nodes \<longrightarrow> b \<in> fst st')
        \<and> (\<forall>a\<in>set new. \<exists>c loc. ImportDirective c loc \<in> set nodes
               \<and> (c, a) \<in> (importEdges srcs)\<^sup>*)"
proof (induction srcs p st and srcs nodes st arbitrary: st' and st'
    rule: toposort_toposort_nodes.induct)
  case (1 srcs nm src sourcesSeen sourceOrder)
  let ?E = "importEdges srcs"
  from 1(2) have m: "map_of srcs nm = Some src" by simp
  show ?case
  proof (cases "nm \<in> sourcesSeen")
    case True
    with 1(3) have "st' = (sourcesSeen, sourceOrder)" by simp
    with True show ?thesis by (auto simp: dfsExtends_Nil)
  next
    case False
    with 1(3) obtain nodes seen1 ord1 where
      a: "ast src = Some nodes"
      and r: "toposort_nodes srcs nodes (insert nm sourcesSeen, sourceOrder) = Inr (seen1, ord1)"
      and s: "st' = (seen1, ord1 @ [nm])"
      by (auto split: option.splits sum.splits)
    from 1(1)[OF False a r] obtain new where
      o: "ord1 = sourceOrder @ new" and sn: "seen1 = insert nm sourcesSeen \<union> set new"
      and x: "dfsExtends srcs (insert nm sourcesSeen) new"
      and imp: "\<forall>b loc. ImportDirective b loc \<in> set nodes \<longrightarrow> b \<in> seen1"
      and rch: "\<forall>a\<in>set new. \<exists>c loc. ImportDirective c loc \<in> set nodes \<and> (c, a) \<in> ?E\<^sup>*"
      by auto
    from m have key: "nm \<in> fst ` set srcs" by (metis map_of_SomeD fst_conv image_eqI)
    have r': "\<forall>a\<in>set new. (nm, a) \<in> ?E\<^sup>*"
    proof
      fix a assume "a \<in> set new"
      with rch obtain c loc where "ImportDirective c loc \<in> set nodes" "(c, a) \<in> ?E\<^sup>*" by blast
      with importEdges_I[OF m a] show "(nm, a) \<in> ?E\<^sup>*"
        by (meson converse_rtrancl_into_rtrancl)
    qed
    have c': "\<forall>b. (nm, b) \<in> ?E \<longrightarrow> b \<in> insert nm sourcesSeen \<union> set new"
      using importEdges_D[OF _ m a] imp sn by blast
    from dfsExtends_finish[OF x False key r' c']
    have "dfsExtends srcs sourcesSeen (new @ [nm])" .
    moreover have "(nm, nm) \<in> ?E\<^sup>*" by simp
    ultimately show ?thesis
      using s o sn r' by (intro exI[of _ "new @ [nm]"]) auto
  qed
next
  case (2 srcs st)
  then show ?case by (auto simp: dfsExtends_Nil)
next
  case (3 srcs node rest st)
  let ?E = "importEdges srcs"
  show ?case
  proof (cases node)
    case (ImportDirective ident loc)
    with 3(5) obtain s st1 where
      m: "map_of srcs ident = Some s"
      and t: "toposort srcs (ident, s) st = Inr st1"
      and r: "toposort_nodes srcs rest st1 = Inr st'"
      by (auto split: option.splits sum.splits)
    from 3(1)[OF ImportDirective m _ t] m obtain new1 where
      o1: "snd st1 = snd st @ new1" and s1: "fst st1 = fst st \<union> set new1"
      and x1: "dfsExtends srcs (fst st) new1" and i1: "ident \<in> fst st1"
      and r1: "\<forall>a\<in>set new1. (ident, a) \<in> ?E\<^sup>*"
      by auto
    from 3(2)[OF ImportDirective m t r] obtain new2 where
      o2: "snd st' = snd st1 @ new2" and s2: "fst st' = fst st1 \<union> set new2"
      and x2: "dfsExtends srcs (fst st1) new2"
      and i2: "\<forall>b loc. ImportDirective b loc \<in> set rest \<longrightarrow> b \<in> fst st'"
      and r2: "\<forall>a\<in>set new2. \<exists>c loc. ImportDirective c loc \<in> set rest \<and> (c, a) \<in> ?E\<^sup>*"
      by auto
    from x1 x2 s1 have x: "dfsExtends srcs (fst st) (new1 @ new2)"
      by (simp add: dfsExtends_append)
    have i: "\<forall>b loc. ImportDirective b loc \<in> set (node # rest) \<longrightarrow> b \<in> fst st'"
      using i1 i2 s2 ImportDirective by auto
    have rr: "\<forall>a\<in>set (new1 @ new2). \<exists>c loc. ImportDirective c loc \<in> set (node # rest)
               \<and> (c, a) \<in> ?E\<^sup>*"
    proof
      fix a assume "a \<in> set (new1 @ new2)"
      then consider "a \<in> set new1" | "a \<in> set new2" by auto
      then show "\<exists>c loc. ImportDirective c loc \<in> set (node # rest) \<and> (c, a) \<in> ?E\<^sup>*"
      proof cases
        case 1
        with r1 ImportDirective show ?thesis by auto
      next
        case 2
        with r2 show ?thesis by (meson list.set_intros(2))
      qed
    qed
    from o1 o2 s1 s2 x i rr show ?thesis
      by (intro exI[of _ "new1 @ new2"]) auto
  next
    case (ContractDefinition c)
    with 3(5) have "toposort_nodes srcs rest st = Inr st'" by simp
    from 3(3)[OF ContractDefinition this] ContractDefinition show ?thesis by auto
  next
    case OtherNode
    with 3(5) have "toposort_nodes srcs rest st = Inr st'" by simp
    from 3(4)[OF OtherNode this] OtherNode show ?thesis by auto
  qed
qed


section \<open>Failure of the depth-first search\<close>

lemma importFailure_step:
  "(a0, a1) \<in> importEdges srcs \<Longrightarrow> importFailure srcs a1 e \<Longrightarrow> importFailure srcs a0 e"
proof -
  assume e: "(a0, a1) \<in> importEdges srcs" and f: "importFailure srcs a1 e"
  from f obtain a where r: "(a1, a) \<in> (importEdges srcs)\<^sup>*"
    and c: "(\<exists>s. map_of srcs a = Some s \<and> ast s = None \<and> e = NullDereference)
           \<or> (\<exists>b loc. missingImport srcs a b loc \<and> e = ParserError loc ''Source not found.'')"
    unfolding importFailure_def by blast
  from e r have "(a0, a) \<in> (importEdges srcs)\<^sup>*" by (rule converse_rtrancl_into_rtrancl)
  with c show ?thesis unfolding importFailure_def by blast
qed

text \<open>What a failed call ends with: an exception raised at a source reachable from its argument.\<close>

lemma toposort_error:
  "map_of srcs (fst p) = Some (snd p) \<Longrightarrow> toposort srcs p st = Inl e
     \<Longrightarrow> importFailure srcs (fst p) e"
  "map_of srcs a0 = Some s0 \<Longrightarrow> ast s0 = Some all \<Longrightarrow> set nodes \<subseteq> set all
     \<Longrightarrow> toposort_nodes srcs nodes st = Inl e \<Longrightarrow> importFailure srcs a0 e"
proof (induction srcs p st and srcs nodes st arbitrary: e and a0 s0 all e
    rule: toposort_toposort_nodes.induct)
  case (1 srcs nm src sourcesSeen sourceOrder)
  from 1(2) have m: "map_of srcs nm = Some src" by simp
  from 1(3) have ns: "nm \<notin> sourcesSeen" by (auto split: if_splits)
  show ?case
  proof (cases "ast src")
    case None
    with 1(3) ns have "e = NullDereference" by simp
    with m None show ?thesis unfolding importFailure_def by auto
  next
    case (Some nodes)
    with 1(3) ns have "toposort_nodes srcs nodes (insert nm sourcesSeen, sourceOrder) = Inl e"
      by (auto split: sum.splits)
    from 1(1)[OF ns Some m Some subset_refl this] show ?thesis by simp
  qed
next
  case (2 srcs st)
  then show ?case by simp
next
  case (3 srcs node rest st)
  from 3(7) have sub: "set rest \<subseteq> set all" and mem: "node \<in> set all" by auto
  show ?case
  proof (cases node)
    case (ImportDirective ident loc)
    show ?thesis
    proof (cases "map_of srcs ident")
      case None
      with 3(8) ImportDirective have "e = ParserError loc ''Source not found.''" by simp
      moreover from None ImportDirective mem 3(5,6) have "missingImport srcs a0 ident loc"
        unfolding missingImport_def by auto
      ultimately show ?thesis unfolding importFailure_def by blast
    next
      case (Some s)
      from ImportDirective mem 3(5,6) have edge: "(a0, ident) \<in> importEdges srcs"
        by (auto intro: importEdges_I)
      show ?thesis
      proof (cases "toposort srcs (ident, s) st")
        case (Inl e')
        with 3(8) ImportDirective Some have "e' = e" by simp
        with 3(1)[OF ImportDirective Some _ Inl] Some have "importFailure srcs ident e" by simp
        with edge show ?thesis by (rule importFailure_step)
      next
        case (Inr st1)
        with 3(8) ImportDirective Some have "toposort_nodes srcs rest st1 = Inl e" by simp
        from 3(2)[OF ImportDirective Some Inr 3(5,6) sub this] show ?thesis .
      qed
    qed
  next
    case (ContractDefinition c)
    with 3(8) have "toposort_nodes srcs rest st = Inl e" by simp
    from 3(3)[OF ContractDefinition 3(5,6) sub this] show ?thesis .
  next
    case OtherNode
    with 3(8) have "toposort_nodes srcs rest st = Inl e" by simp
    from 3(4)[OF OtherNode 3(5,6) sub this] show ?thesis .
  qed
qed

text \<open>The loop over the roots.\<close>

lemma toposort_roots_invariant:
  assumes "\<forall>(n, s)\<in>set ps. map_of srcs n = Some s"
    and "toposort_roots srcs ps st = Inr st'"
  shows "\<exists>new. snd st' = snd st @ new \<and> fst st' = fst st \<union> set new
        \<and> dfsExtends srcs (fst st) new
        \<and> (\<forall>(n, s)\<in>set ps. \<not> isLibrary s \<longrightarrow> n \<in> fst st')
        \<and> (\<forall>a\<in>set new. \<exists>(r, s)\<in>set ps. \<not> isLibrary s \<and> (r, a) \<in> (importEdges srcs)\<^sup>*)"
  using assms
proof (induction ps arbitrary: st)
  case Nil
  then show ?case by (auto simp: dfsExtends_Nil)
next
  case (Cons p ps)
  let ?E = "importEdges srcs"
  obtain nm src where p: "p = (nm, src)" by (cases p)
  from Cons.prems(1) have m: "map_of srcs nm = Some src"
    and ms: "\<forall>(n, s)\<in>set ps. map_of srcs n = Some s" by (auto simp: p)
  show ?case
  proof (cases "isLibrary src")
    case True
    with Cons.prems(2) have "toposort_roots srcs ps st = Inr st'" by (simp add: p)
    from Cons.IH[OF ms this] True show ?thesis by (auto simp: p)
  next
    case False
    with Cons.prems(2) obtain st1 where
      t: "toposort srcs (nm, src) st = Inr st1"
      and r: "toposort_roots srcs ps st1 = Inr st'"
      by (auto simp: p split: sum.splits)
    from toposort_invariant(1)[OF _ t] m obtain new1 where
      o1: "snd st1 = snd st @ new1" and s1: "fst st1 = fst st \<union> set new1"
      and x1: "dfsExtends srcs (fst st) new1" and i1: "nm \<in> fst st1"
      and r1: "\<forall>a\<in>set new1. (nm, a) \<in> ?E\<^sup>*"
      by auto
    from Cons.IH[OF ms r] obtain new2 where
      o2: "snd st' = snd st1 @ new2" and s2: "fst st' = fst st1 \<union> set new2"
      and x2: "dfsExtends srcs (fst st1) new2"
      and i2: "\<forall>(n, s)\<in>set ps. \<not> isLibrary s \<longrightarrow> n \<in> fst st'"
      and r2: "\<forall>a\<in>set new2. \<exists>(r, s)\<in>set ps. \<not> isLibrary s \<and> (r, a) \<in> ?E\<^sup>*"
      by auto
    from x1 x2 s1 have x: "dfsExtends srcs (fst st) (new1 @ new2)"
      by (simp add: dfsExtends_append)
    have i: "\<forall>(n, s)\<in>set (p # ps). \<not> isLibrary s \<longrightarrow> n \<in> fst st'"
      using i1 i2 s2 by (auto simp: p)
    have rr: "\<forall>a\<in>set (new1 @ new2). \<exists>(r, s)\<in>set (p # ps). \<not> isLibrary s \<and> (r, a) \<in> ?E\<^sup>*"
      using r1 r2 False by (fastforce simp: p)
    from o1 o2 s1 s2 x i rr show ?thesis
      by (intro exI[of _ "new1 @ new2"]) auto
  qed
qed

lemma toposort_roots_error:
  assumes "\<forall>(n, s)\<in>set ps. map_of srcs n = Some s"
    and "toposort_roots srcs ps st = Inl e"
  shows "\<exists>(r, s)\<in>set ps. \<not> isLibrary s \<and> importFailure srcs r e"
  using assms
proof (induction ps arbitrary: st)
  case Nil
  then show ?case by simp
next
  case (Cons p ps)
  obtain nm src where p: "p = (nm, src)" by (cases p)
  from Cons.prems(1) have m: "map_of srcs nm = Some src"
    and ms: "\<forall>(n, s)\<in>set ps. map_of srcs n = Some s" by (auto simp: p)
  show ?case
  proof (cases "isLibrary src")
    case True
    with Cons.prems(2) have "toposort_roots srcs ps st = Inl e" by (simp add: p)
    from Cons.IH[OF ms this] show ?thesis by auto
  next
    case False
    show ?thesis
    proof (cases "toposort srcs (nm, src) st")
      case (Inl e')
      with Cons.prems(2) False have "e' = e" by (simp add: p)
      with toposort_error(1)[OF _ Inl] m have "importFailure srcs nm e" by simp
      with False show ?thesis by (auto simp: p)
    next
      case (Inr st1)
      with Cons.prems(2) False have "toposort_roots srcs ps st1 = Inl e" by (simp add: p)
      from Cons.IH[OF ms this] show ?thesis by auto
    qed
  qed
qed

lemma distinct_keys_lookup:
  "distinct (map fst srcs) \<Longrightarrow> \<forall>(n, s)\<in>set srcs. map_of srcs n = Some s"
  by auto

text \<open>
  The order computed on success: it satisfies the invariant from the empty seen set, and
  its sources are the sources reachable from the roots.
\<close>

lemma resolveImports_order_success:
  assumes d: "distinct (map fst srcs)" and r: "resolveImports_order srcs = Inr sourceOrder"
  shows "dfsExtends srcs {} sourceOrder \<and> set sourceOrder = reachableSources srcs"
proof -
  let ?E = "importEdges srcs"
  from r obtain seen where t: "toposort_roots srcs srcs ({}, []) = Inr (seen, sourceOrder)"
    by (auto simp: resolveImports_order_def split: sum.splits)
  from toposort_roots_invariant[OF distinct_keys_lookup[OF d] t]
  have x: "dfsExtends srcs {} sourceOrder" and sn: "seen = set sourceOrder"
    and roots: "\<forall>(n, s)\<in>set srcs. \<not> isLibrary s \<longrightarrow> n \<in> seen"
    and rch: "\<forall>a\<in>set sourceOrder. \<exists>(r, s)\<in>set srcs. \<not> isLibrary s \<and> (r, a) \<in> ?E\<^sup>*"
    by auto
  have closed: "b \<in> set sourceOrder" if "a \<in> set sourceOrder" "(a, b) \<in> ?E" for a b
    using x that unfolding dfsExtends_def by blast
  have "z \<in> set sourceOrder" if "(r, z) \<in> ?E\<^sup>*" "r \<in> set sourceOrder" for r z
    using that by (induction rule: rtrancl_induct) (auto intro: closed)
  moreover have "rootNames srcs \<subseteq> set sourceOrder"
    using roots sn by (auto simp: rootNames_def)
  ultimately have "reachableSources srcs \<subseteq> set sourceOrder"
    unfolding reachableSources_def by blast
  moreover have "set sourceOrder \<subseteq> reachableSources srcs"
    using rch unfolding reachableSources_def rootNames_def by blast
  ultimately show ?thesis using x by blast
qed

lemma resolveImports_order_failure:
  assumes d: "distinct (map fst srcs)" and r: "resolveImports_order srcs = Inl e"
  shows "\<exists>a\<in>reachableSources srcs.
           (\<exists>s. map_of srcs a = Some s \<and> ast s = None \<and> e = NullDereference)
         \<or> (\<exists>b loc. missingImport srcs a b loc \<and> e = ParserError loc ''Source not found.'')"
proof -
  from r have "toposort_roots srcs srcs ({}, []) = Inl e"
    by (auto simp: resolveImports_order_def split: sum.splits)
  from toposort_roots_error[OF distinct_keys_lookup[OF d] this]
  obtain r0 s0 where "(r0, s0) \<in> set srcs" "\<not> isLibrary s0" "importFailure srcs r0 e" by auto
  then show ?thesis
    unfolding importFailure_def reachableSources_def rootNames_def by blast
qed


section \<open>The order computed by import resolution\<close>

lemma resolveImports_Inr_iff:
  "resolveImports st = Inr st' \<longleftrightarrow>
     (\<exists>sourceOrder. resolveImports_order (m_sources st) = Inr sourceOrder
        \<and> st' = st\<lparr>m_sourceOrder := sourceOrder\<rparr>)"
  by (auto simp: resolveImports_def split: sum.splits)

lemma resolveImports_Inl_iff:
  "resolveImports st = Inl e \<longleftrightarrow> resolveImports_order (m_sources st) = Inl e"
  by (auto simp: resolveImports_def split: sum.splits)

lemma root_reachable:
  "(r, s) \<in> set srcs \<Longrightarrow> \<not> isLibrary s \<Longrightarrow> r \<in> reachableSources srcs"
  unfolding reachableSources_def rootNames_def by blast

text \<open>
  Claim C1, as the code has it. Let \<open>resolveImports\<close> succeed, and let source \<open>a\<close>, which is
  in the resulting order, import source \<open>b\<close>. If \<open>a\<close> is not reachable from \<open>b\<close> through
  imports, that is, if the edge is not on an import cycle, then \<open>b\<close> precedes \<open>a\<close> in the
  order.
\<close>

theorem resolveImports_import_precedes:
  assumes "distinct (map fst (m_sources st))"
    and "resolveImports st = Inr st'"
    and "a \<in> set (m_sourceOrder st')"
    and "(a, b) \<in> importEdges (m_sources st)"
    and "(b, a) \<notin> (importEdges (m_sources st))\<^sup>*"
  shows "precedes (m_sourceOrder st') b a"
proof -
  from assms(2) obtain sourceOrder where
    r: "resolveImports_order (m_sources st) = Inr sourceOrder"
    and s: "m_sourceOrder st' = sourceOrder"
    by (auto simp: resolveImports_Inr_iff)
  from resolveImports_order_success[OF assms(1) r]
  have "dfsExtends (m_sources st) {} sourceOrder" by blast
  with assms(3,4,5) s show ?thesis unfolding dfsExtends_def by blast
qed

theorem resolveImports_import_precedes_witness:
  "distinct (map fst (m_sources (stackOfSources libUserSources)))
   \<and> resolveImports (stackOfSources libUserSources)
       = Inr ((stackOfSources libUserSources)\<lparr>m_sourceOrder := [''Lib'', ''User'']\<rparr>)
   \<and> (''User'', ''Lib'') \<in> importEdges libUserSources
   \<and> (''Lib'', ''User'') \<notin> (importEdges libUserSources)\<^sup>*
   \<and> precedes [''Lib'', ''User''] ''Lib'' ''User''"
proof -
  let ?st = "stackOfSources libUserSources"
  have m: "m_sources ?st = libUserSources" by (simp add: stackOfSources_def)
  have d: "distinct (map fst (m_sources ?st))"
    by (simp add: stackOfSources_def libUserSources_def)
  have r: "resolveImports ?st = Inr (?st\<lparr>m_sourceOrder := [''Lib'', ''User'']\<rparr>)"
    by (simp add: resolveImports_def resolveImports_order_def stackOfSources_def
        libUserSources_def parsedSource_def)
  have e: "(''User'', ''Lib'') \<in> importEdges (m_sources ?st)"
    unfolding m by (simp add: importEdges_def libUserSources_def parsedSource_def)
  have "(''Lib'', c) \<notin> importEdges libUserSources" for c
    by (simp add: importEdges_def libUserSources_def parsedSource_def)
  then have n: "(''Lib'', ''User'') \<notin> (importEdges (m_sources ?st))\<^sup>*"
    unfolding m by (auto elim: converse_rtranclE)
  have a: "''User'' \<in> set (m_sourceOrder (?st\<lparr>m_sourceOrder := [''Lib'', ''User'']\<rparr>))" by simp
  from resolveImports_import_precedes[OF d r a e n] d r e n show ?thesis
    by (simp add: m)
qed

text \<open>
  Claim C1 as stated, for every edge and for cyclic graphs too, fails where \<open>A\<close> and \<open>B\<close>
  import each other: the order is \<open>B\<close>, \<open>A\<close>, and \<open>B\<close> imports \<open>A\<close>, which does not precede
  it. It fails also for the import of \<open>A\<close> by the library \<open>L\<close>, which is not in the order.
\<close>

theorem resolveImports_import_precedes_counterexample:
  "resolveImports (stackOfSources cyclicLibrarySources)
       = Inr ((stackOfSources cyclicLibrarySources)\<lparr>m_sourceOrder := [''B'', ''A'']\<rparr>)
   \<and> (''B'', ''A'') \<in> importEdges cyclicLibrarySources
   \<and> \<not> precedes [''B'', ''A''] ''A'' ''B''
   \<and> (''L'', ''A'') \<in> importEdges cyclicLibrarySources
   \<and> \<not> precedes [''B'', ''A''] ''A'' ''L''"
  by (simp add: resolveImports_def resolveImports_order_def stackOfSources_def
      cyclicLibrarySources_def parsedSource_def importEdges_def precedes_def)



section \<open>The import that cannot be resolved\<close>

text \<open>
  An exception raised by a call that the search comes to is the outcome of the whole search;
  so the search ends at the first import directive with a missing identifier that it comes
  to, with the parser error at the location of that directive.
\<close>

lemma searchStep_error:
  "searchStep srcs p c \<Longrightarrow> runCall srcs c = Inl e \<Longrightarrow> runCall srcs p = Inl e"
  by (induction rule: searchStep.induct) auto

lemma searchSteps_error:
  "(searchStep srcs)\<^sup>*\<^sup>* p c \<Longrightarrow> runCall srcs c = Inl e \<Longrightarrow> runCall srcs p = Inl e"
  by (induction rule: rtranclp_induct) (auto dest: searchStep_error)

lemma searchReaches_error:
  "searchReaches srcs c \<Longrightarrow> runCall srcs c = Inl e \<Longrightarrow> resolveImports_order srcs = Inl e"
  unfolding searchReaches_def
  by (drule (1) searchSteps_error) (simp add: resolveImports_order_def)

lemma searchReaches_missing:
  assumes "searchReaches srcs (VisitNodes (ImportDirective b loc # rest) st')"
    and "map_of srcs b = None"
  shows "resolveImports_order srcs = Inl (ParserError loc ''Source not found.'')"
  using assms by (auto intro: searchReaches_error)

lemma missing_directive_stops:
  "searchStep srcs (VisitNodes (ImportDirective b loc # rest) st) c \<Longrightarrow> map_of srcs b \<noteq> None"
  by (auto elim: searchStep.cases)

text \<open>
  Conversely, a parser error is raised at an import directive with a missing identifier
  that the search has come to.
\<close>

lemma parser_error_reached:
  "toposort srcs p st = Inl (ParserError loc msg) \<Longrightarrow>
     \<exists>b rest st'. (searchStep srcs)\<^sup>*\<^sup>* (VisitSource p st) (VisitNodes (ImportDirective b loc # rest) st')
        \<and> map_of srcs b = None"
  "toposort_nodes srcs nodes st = Inl (ParserError loc msg) \<Longrightarrow>
     \<exists>b rest st'. (searchStep srcs)\<^sup>*\<^sup>* (VisitNodes nodes st) (VisitNodes (ImportDirective b loc # rest) st')
        \<and> map_of srcs b = None"
proof (induction srcs p st and srcs nodes st rule: toposort_toposort_nodes.induct)
  case (1 srcs nm src sourcesSeen sourceOrder)
  from 1(2) have ns: "nm \<notin> sourcesSeen" by (auto split: if_splits)
  with 1(2) obtain nodes where a: "ast src = Some nodes"
    and r: "toposort_nodes srcs nodes (insert nm sourcesSeen, sourceOrder) = Inl (ParserError loc msg)"
    by (auto split: option.splits sum.splits)
  from 1(1)[OF ns a r] obtain b rest st' where
    "(searchStep srcs)\<^sup>*\<^sup>* (VisitNodes nodes (insert nm sourcesSeen, sourceOrder))
        (VisitNodes (ImportDirective b loc # rest) st')" "map_of srcs b = None" by blast
  with source_nodes[OF ns a, of srcs sourceOrder] show ?case
    by (meson converse_rtranclp_into_rtranclp)
next
  case (2 srcs st)
  then show ?case by simp
next
  case (3 srcs node rest st)
  show ?case
  proof (cases node)
    case (ImportDirective ident loc')
    show ?thesis
    proof (cases "map_of srcs ident")
      case None
      with 3(5) ImportDirective have "loc' = loc" by simp
      with None ImportDirective show ?thesis by blast
    next
      case (Some s)
      show ?thesis
      proof (cases "toposort srcs (ident, s) st")
        case (Inl e)
        with 3(5) ImportDirective Some have "toposort srcs (ident, s) st = Inl (ParserError loc msg)"
          by simp
        from 3(1)[OF ImportDirective Some this] obtain b rest' st' where
          "(searchStep srcs)\<^sup>*\<^sup>* (VisitSource (ident, s) st)
              (VisitNodes (ImportDirective b loc # rest') st')" "map_of srcs b = None" by blast
        with import_visit[OF Some, of loc' rest st] ImportDirective show ?thesis
          by (meson converse_rtranclp_into_rtranclp)
      next
        case (Inr st1)
        with 3(5) ImportDirective Some have "toposort_nodes srcs rest st1 = Inl (ParserError loc msg)"
          by simp
        from 3(2)[OF ImportDirective Some Inr this] obtain b rest' st' where
          "(searchStep srcs)\<^sup>*\<^sup>* (VisitNodes rest st1)
              (VisitNodes (ImportDirective b loc # rest') st')" "map_of srcs b = None" by blast
        with import_next[OF Some Inr, of loc' rest] ImportDirective show ?thesis
          by (meson converse_rtranclp_into_rtranclp)
      qed
    qed
  next
    case (ContractDefinition c)
    with 3(5) have "toposort_nodes srcs rest st = Inl (ParserError loc msg)" by simp
    from 3(3)[OF ContractDefinition this] obtain b rest' st' where
      "(searchStep srcs)\<^sup>*\<^sup>* (VisitNodes rest st)
          (VisitNodes (ImportDirective b loc # rest') st')" "map_of srcs b = None" by blast
    with contract_next[of srcs c rest st] ContractDefinition show ?thesis
      by (meson converse_rtranclp_into_rtranclp)
  next
    case OtherNode
    with 3(5) have "toposort_nodes srcs rest st = Inl (ParserError loc msg)" by simp
    from 3(4)[OF OtherNode this] obtain b rest' st' where
      "(searchStep srcs)\<^sup>*\<^sup>* (VisitNodes rest st)
          (VisitNodes (ImportDirective b loc # rest') st')" "map_of srcs b = None" by blast
    with other_next[of srcs rest st] OtherNode show ?thesis
      by (meson converse_rtranclp_into_rtranclp)
  qed
qed

lemma parser_error_reached_roots:
  "toposort_roots srcs roots st = Inl (ParserError loc msg) \<Longrightarrow>
     \<exists>b rest st'. (searchStep srcs)\<^sup>*\<^sup>* (VisitRoots roots st) (VisitNodes (ImportDirective b loc # rest) st')
        \<and> map_of srcs b = None"
proof (induction roots arbitrary: st)
  case Nil
  then show ?case by simp
next
  case (Cons p roots)
  obtain nm src where p: "p = (nm, src)" by (cases p)
  show ?case
  proof (cases "isLibrary src")
    case True
    with Cons.prems have "toposort_roots srcs roots st = Inl (ParserError loc msg)" by (simp add: p)
    from Cons.IH[OF this] obtain b rest st' where
      "(searchStep srcs)\<^sup>*\<^sup>* (VisitRoots roots st) (VisitNodes (ImportDirective b loc # rest) st')"
      "map_of srcs b = None" by blast
    with root_skip[OF True, of srcs nm roots st] show ?thesis
      unfolding p by (meson converse_rtranclp_into_rtranclp)
  next
    case False
    show ?thesis
    proof (cases "toposort srcs (nm, src) st")
      case (Inl e)
      with Cons.prems False have "toposort srcs (nm, src) st = Inl (ParserError loc msg)"
        by (simp add: p)
      from parser_error_reached(1)[OF this] obtain b rest st' where
        "(searchStep srcs)\<^sup>*\<^sup>* (VisitSource (nm, src) st) (VisitNodes (ImportDirective b loc # rest) st')"
        "map_of srcs b = None" by blast
      with root_visit[OF False, of srcs nm roots st] show ?thesis
        unfolding p by (meson converse_rtranclp_into_rtranclp)
    next
      case (Inr st1)
      with Cons.prems False have "toposort_roots srcs roots st1 = Inl (ParserError loc msg)"
        by (simp add: p)
      from Cons.IH[OF this] obtain b rest st' where
        "(searchStep srcs)\<^sup>*\<^sup>* (VisitRoots roots st1) (VisitNodes (ImportDirective b loc # rest) st')"
        "map_of srcs b = None" by blast
      with root_next[OF False Inr, of roots] show ?thesis
        unfolding p by (meson converse_rtranclp_into_rtranclp)
    qed
  qed
qed


text \<open>Every call that the search comes to stands in the source map as described.\<close>

lemma reachableSources_step:
  "a \<in> reachableSources srcs \<Longrightarrow> (a, b) \<in> importEdges srcs \<Longrightarrow> b \<in> reachableSources srcs"
  unfolding reachableSources_def by (meson Image_iff rtrancl.rtrancl_into_rtrancl)

lemma searchStep_wellPlaced:
  assumes d: "distinct (map fst srcs)" and s: "searchStep srcs p c" and w: "wellPlaced srcs p"
  shows "wellPlaced srcs c"
  using s w
proof (induction rule: searchStep.induct)
  case (root_visit src nm rest st)
  then have "(nm, src) \<in> set srcs" by auto
  with d root_visit(1) show ?case by (auto intro: root_reachable)
next
  case (source_nodes nm sourcesSeen src nodes sourceOrder)
  then have "map_of srcs nm = Some src \<and> ast src = Some ([] @ nodes) \<and> nm \<in> reachableSources srcs"
    by simp
  then show ?case unfolding wellPlaced.simps by blast
next
  case (import_visit ident s loc rest st)
  then obtain a s' pre where m: "map_of srcs a = Some s'"
    and n: "ast s' = Some (pre @ ImportDirective ident loc # rest)"
    and r: "a \<in> reachableSources srcs" by auto
  from importEdges_I[OF m n, of ident loc] have "(a, ident) \<in> importEdges srcs" by simp
  with r import_visit(1) show ?case by (auto intro: reachableSources_step)
next
  case (import_next ident s st st' loc rest)
  then obtain a s' pre where "map_of srcs a = Some s'"
    "ast s' = Some ((pre @ [ImportDirective ident loc]) @ rest)" "a \<in> reachableSources srcs"
    by auto
  then show ?case unfolding wellPlaced.simps by blast
next
  case (contract_next c rest st)
  then obtain a s' pre where "map_of srcs a = Some s'"
    "ast s' = Some ((pre @ [ContractDefinition c]) @ rest)" "a \<in> reachableSources srcs"
    by auto
  then show ?case unfolding wellPlaced.simps by blast
next
  case (other_next rest st)
  then obtain a s' pre where "map_of srcs a = Some s'"
    "ast s' = Some ((pre @ [OtherNode]) @ rest)" "a \<in> reachableSources srcs"
    by auto
  then show ?case unfolding wellPlaced.simps by blast
qed auto

lemma searchReaches_wellPlaced:
  assumes "distinct (map fst srcs)" and "searchReaches srcs c"
  shows "wellPlaced srcs c"
  using assms(2) unfolding searchReaches_def
  by (induction rule: rtranclp_induct) (auto intro: searchStep_wellPlaced[OF assms(1)])

text \<open>
  Claim C6, as the code has it. With the sources parsed, if a source reachable from a root
  that is not a library has an import directive whose identifier is not a key of the source
  map, then \<open>resolveImports\<close> raises a \<open>ParserError\<close>. The location it carries is that of the
  import directive with a missing identifier, of a reachable source, that the search comes
  to: whenever the search comes to such a directive, the error raised carries the location
  of that directive, so there is only one, the first. It is the location of the given
  directive when no other location has such a directive.
\<close>

theorem resolveImports_missing_import:
  assumes "distinct (map fst (m_sources st))"
    and "allParsed (m_sources st)"
    and "a \<in> reachableSources (m_sources st)"
    and "missingImport (m_sources st) a b loc"
  shows "(\<exists>a'\<in>reachableSources (m_sources st). \<exists>s' pre b' loc' rest st'.
            map_of (m_sources st) a' = Some s'
          \<and> ast s' = Some (pre @ ImportDirective b' loc' # rest)
          \<and> map_of (m_sources st) b' = None
          \<and> searchReaches (m_sources st) (VisitNodes (ImportDirective b' loc' # rest) st')
          \<and> resolveImports st = Inl (ParserError loc' ''Source not found.''))
       \<and> (\<forall>b' loc' rest st'.
             searchReaches (m_sources st) (VisitNodes (ImportDirective b' loc' # rest) st')
             \<longrightarrow> map_of (m_sources st) b' = None
             \<longrightarrow> resolveImports st = Inl (ParserError loc' ''Source not found.''))
       \<and> ((\<forall>a'\<in>reachableSources (m_sources st). \<forall>b' loc'.
              missingImport (m_sources st) a' b' loc' \<longrightarrow> loc' = loc)
            \<longrightarrow> resolveImports st = Inl (ParserError loc ''Source not found.''))"
proof -
  let ?srcs = "m_sources st"
  have first: "resolveImports st = Inl (ParserError loc' ''Source not found.'')"
    if "searchReaches ?srcs (VisitNodes (ImportDirective b' loc' # rest) st')"
      and "map_of ?srcs b' = None" for b' loc' rest st'
    using searchReaches_missing[OF that] by (simp add: resolveImports_Inl_iff)
  have ex: "\<exists>loc'. resolveImports_order ?srcs = Inl (ParserError loc' ''Source not found.'')"
  proof (cases "resolveImports_order ?srcs")
    case (Inl e)
    from resolveImports_order_failure[OF assms(1) Inl]
    obtain a' where
      c: "(\<exists>s. map_of ?srcs a' = Some s \<and> ast s = None \<and> e = NullDereference)
           \<or> (\<exists>b loc. missingImport ?srcs a' b loc \<and> e = ParserError loc ''Source not found.'')"
      by blast
    have "\<not> (\<exists>s. map_of ?srcs a' = Some s \<and> ast s = None)"
      using assms(2) by (auto simp: allParsed_def list_all_iff dest!: map_of_SomeD)
    with c Inl show ?thesis by blast
  next
    case (Inr sourceOrder)
    from resolveImports_order_success[OF assms(1) Inr]
    have x: "dfsExtends ?srcs {} sourceOrder"
      and s: "set sourceOrder = reachableSources ?srcs" by auto
    from assms(4) have e: "(a, b) \<in> importEdges ?srcs" and n: "map_of ?srcs b = None"
      by (auto simp: missingImport_def importEdges_def)
    from x e assms(3) s have "b \<in> fst ` set ?srcs" unfolding dfsExtends_def by blast
    with n show ?thesis by (simp add: map_of_eq_None_iff)
  qed
  then obtain loc' where
    r: "resolveImports_order ?srcs = Inl (ParserError loc' ''Source not found.'')" by blast
  then have "toposort_roots ?srcs ?srcs ({}, []) = Inl (ParserError loc' ''Source not found.'')"
    by (auto simp: resolveImports_order_def split: sum.splits)
  from parser_error_reached_roots[OF this] obtain b' rest st' where
    reach: "searchReaches ?srcs (VisitNodes (ImportDirective b' loc' # rest) st')"
    and none: "map_of ?srcs b' = None"
    unfolding searchReaches_def by blast
  from searchReaches_wellPlaced[OF assms(1) reach] obtain a' s' pre where
    m': "map_of ?srcs a' = Some s'" and n': "ast s' = Some (pre @ ImportDirective b' loc' # rest)"
    and r': "a' \<in> reachableSources ?srcs" by auto
  from r have e': "resolveImports st = Inl (ParserError loc' ''Source not found.'')"
    by (simp add: resolveImports_Inl_iff)
  have 1: "\<exists>a'\<in>reachableSources ?srcs. \<exists>s' pre b' loc' rest st'.
            map_of ?srcs a' = Some s'
          \<and> ast s' = Some (pre @ ImportDirective b' loc' # rest)
          \<and> map_of ?srcs b' = None
          \<and> searchReaches ?srcs (VisitNodes (ImportDirective b' loc' # rest) st')
          \<and> resolveImports st = Inl (ParserError loc' ''Source not found.'')"
    by (rule bexI[OF _ r'], intro exI conjI) (rule m' n' none reach e')+
  have 3: "resolveImports st = Inl (ParserError loc ''Source not found.'')"
    if u: "\<forall>a'\<in>reachableSources ?srcs. \<forall>b' loc'. missingImport ?srcs a' b' loc' \<longrightarrow> loc' = loc"
  proof -
    from m' n' none have "missingImport ?srcs a' b' loc'"
      by (auto simp: missingImport_def)
    with u r' have "loc' = loc" by blast
    with e' show ?thesis by simp
  qed
  show ?thesis
  proof (intro conjI allI impI)
    show "\<exists>a'\<in>reachableSources ?srcs. \<exists>s' pre b' loc' rest st'.
            map_of ?srcs a' = Some s'
          \<and> ast s' = Some (pre @ ImportDirective b' loc' # rest)
          \<and> map_of ?srcs b' = None
          \<and> searchReaches ?srcs (VisitNodes (ImportDirective b' loc' # rest) st')
          \<and> resolveImports st = Inl (ParserError loc' ''Source not found.'')"
      by (rule 1)
  next
    fix b' loc' rest st'
    assume "searchReaches ?srcs (VisitNodes (ImportDirective b' loc' # rest) st')"
      and "map_of ?srcs b' = None"
    then show "resolveImports st = Inl (ParserError loc' ''Source not found.'')"
      by (rule first)
  next
    assume "\<forall>a'\<in>reachableSources ?srcs. \<forall>b' loc'. missingImport ?srcs a' b' loc' \<longrightarrow> loc' = loc"
    then show "resolveImports st = Inl (ParserError loc ''Source not found.'')"
      by (rule 3)
  qed
qed

theorem resolveImports_missing_import_witness:
  "distinct (map fst (m_sources (stackOfSources missingSources)))
   \<and> allParsed (m_sources (stackOfSources missingSources))
   \<and> ''A'' \<in> reachableSources (m_sources (stackOfSources missingSources))
   \<and> missingImport (m_sources (stackOfSources missingSources)) ''A'' ''Nope'' (importLocation ''A'')
   \<and> searchReaches missingSources
        (VisitNodes [ImportDirective ''Nope'' (importLocation ''A'')] ({''A''}, []))
   \<and> resolveImports (stackOfSources missingSources)
       = Inl (ParserError (importLocation ''A'') ''Source not found.'')"
proof -
  let ?st = "stackOfSources missingSources"
  let ?src = "parsedSource [ImportDirective ''Nope'' (importLocation ''A'')] False"
  have m: "m_sources ?st = missingSources" by (simp add: stackOfSources_def)
  have d: "distinct (map fst (m_sources ?st))"
    by (simp add: stackOfSources_def missingSources_def)
  have p: "allParsed (m_sources ?st)"
    by (simp add: stackOfSources_def missingSources_def allParsed_def parsedSource_def)
  have a: "''A'' \<in> reachableSources (m_sources ?st)"
    unfolding m by (rule root_reachable[of _ ?src])
      (simp_all add: missingSources_def parsedSource_def)
  have i: "missingImport (m_sources ?st) ''A'' ''Nope'' (importLocation ''A'')"
    unfolding m by (simp add: missingImport_def missingSources_def parsedSource_def)
  have n: "map_of (m_sources ?st) ''Nope'' = None"
    unfolding m by (simp add: missingSources_def)
  have 1: "searchStep missingSources (VisitRoots missingSources ({}, []))
             (VisitSource (''A'', ?src) ({}, []))"
    unfolding missingSources_def by (rule root_visit) (simp add: parsedSource_def)
  have 2: "searchStep missingSources (VisitSource (''A'', ?src) ({}, []))
             (VisitNodes [ImportDirective ''Nope'' (importLocation ''A'')] (insert ''A'' {}, []))"
    by (rule source_nodes) (simp_all add: parsedSource_def)
  have "(searchStep missingSources)\<^sup>*\<^sup>* (VisitRoots missingSources ({}, []))
          (VisitSource (''A'', ?src) ({}, []))"
    using 1 by (rule r_into_rtranclp)
  then have "(searchStep missingSources)\<^sup>*\<^sup>* (VisitRoots missingSources ({}, []))
          (VisitNodes [ImportDirective ''Nope'' (importLocation ''A'')] (insert ''A'' {}, []))"
    using 2 by (rule rtranclp.rtrancl_into_rtrancl)
  then have r: "searchReaches (m_sources ?st)
        (VisitNodes [ImportDirective ''Nope'' (importLocation ''A'')] ({''A''}, []))"
    unfolding m searchReaches_def by simp
  from resolveImports_missing_import[OF d p a i, THEN conjunct2, THEN conjunct1, rule_format, OF r n]
  have "resolveImports ?st = Inl (ParserError (importLocation ''A'') ''Source not found.'')" .
  with d p a i r show ?thesis by (simp add: m)
qed

text \<open>
  Claim C6 as stated, for any such directive of a visited source, fails where source \<open>A\<close>
  has two imports of missing sources: the error carries the location of the first, not of
  the second.
\<close>

theorem resolveImports_missing_import_counterexample:
  "''A'' \<in> reachableSources twoMissingSources
   \<and> missingImport twoMissingSources ''A'' ''Nope2''
        \<lparr>loc_start = 15, loc_end = 30, sourceName = ''A''\<rparr>
   \<and> resolveImports (stackOfSources twoMissingSources)
       = Inl (ParserError \<lparr>loc_start = 0, loc_end = 15, sourceName = ''A''\<rparr> ''Source not found.'')
   \<and> \<lparr>loc_start = 0, loc_end = 15, sourceName = ''A''\<rparr>
       \<noteq> \<lparr>loc_start = 15, loc_end = 30, sourceName = ''A''\<rparr>"
proof -
  have "''A'' \<in> reachableSources twoMissingSources"
    unfolding twoMissingSources_def
    by (rule root_reachable[of _ "parsedSource
         [ImportDirective ''Nope1'' \<lparr>loc_start = 0, loc_end = 15, sourceName = ''A''\<rparr>,
          ImportDirective ''Nope2'' \<lparr>loc_start = 15, loc_end = 30, sourceName = ''A''\<rparr>] False"])
      (simp_all add: parsedSource_def)
  then show ?thesis
    by (simp add: missingImport_def twoMissingSources_def parsedSource_def resolveImports_def
        resolveImports_order_def stackOfSources_def)
qed

section \<open>The source registry: adding a source\<close>

lemma map_of_map_subscript_other:
  "k' \<noteq> k \<Longrightarrow> map_of (map_subscript k d f xs) k' = map_of xs k'"
  by (induction xs) auto

lemma map_of_map_subscript_same:
  "\<exists>v. map_of (map_subscript k d f xs) k = Some (f v)"
  by (induction xs) auto

lemma keys_map_subscript:
  "fst ` set (map_subscript k d f xs) = insert k (fst ` set xs)"
  by (induction xs) (force split: if_splits)+

lemma map_subscript_sorted:
  "sorted_wrt (<) (map fst xs) \<Longrightarrow> sorted_wrt (<) (map fst (map_subscript k d f xs))"
proof (induction xs)
  case Nil
  then show ?case by simp
next
  case (Cons p xs)
  obtain k' v where p: "p = (k', v)" by (cases p)
  from Cons.prems have tl: "sorted_wrt (<) (map fst xs)" and hd: "\<forall>x\<in>fst ` set xs. k' < x"
    by (auto simp: p)
  show ?case
  proof (cases "k = k'")
    case True
    with Cons.prems show ?thesis by (simp add: p)
  next
    case False
    show ?thesis
    proof (cases "k < k'")
      case True
      with False Cons.prems show ?thesis by (auto simp: p)
    next
      case nl: False
      with False have "k' < k" by simp
      with hd have "\<forall>x\<in>fst ` set (map_subscript k d f xs). k' < x"
        by (simp add: keys_map_subscript)
      with Cons.IH[OF tl] False nl show ?thesis by (simp add: p)
    qed
  qed
qed

lemma map_subscript_twice:
  "map_subscript k d g (map_subscript k d f xs) = map_subscript k d (\<lambda>v. g (f v)) xs"
  by (induction xs) auto

lemma m_sources_addSource:
  "m_sources (snd (addSource st nm content lib)) =
     map_subscript nm defaultSource
       (\<lambda>s. s\<lparr>scanner := Some \<lparr>sc_content = content, sc_name = nm\<rparr>, isLibrary := lib\<rparr>)
       (m_sources st)"
  by (simp add: addSource_def reset_keepSources_def Let_def map_subscript_twice)

lemma fst_addSource:
  "fst (addSource st nm content lib) = (nm \<in> fst ` set (m_sources st))"
  by (simp add: addSource_def Let_def map_of_eq_None_iff)

text \<open>
  The call \<open>reset(true)\<close> in \<open>addSource\<close> is \<open>reset_keepSources\<close>. The keys of the map stay
  in ascending order, without repetition, from the constructor on.
\<close>

lemma reset_keepSources_eq: "reset True addStandardSources st = reset_keepSources st"
  by (simp add: reset_def reset_keepSources_def)

lemma addSource_keeps_key_order:
  "sorted_wrt (<) (map fst (m_sources st))
     \<Longrightarrow> sorted_wrt (<) (map fst (m_sources (snd (addSource st nm content lib))))"
  by (simp add: m_sources_addSource map_subscript_sorted)

lemma addSources_keeps_key_order:
  "sorted_wrt (<) (map fst (m_sources st))
     \<Longrightarrow> sorted_wrt (<) (map fst (m_sources (addSources st nameContents lib)))"
  unfolding addSources_def
  by (induction nameContents arbitrary: st) (auto simp: addSource_keeps_key_order)

lemma CompilerStack_new_key_order:
  "sorted_wrt (<) (map fst (m_sources (CompilerStack_new addStandardSources)))"
  unfolding CompilerStack_new_def Let_def
  by (auto intro!: addSources_keeps_key_order)

lemma key_order_distinct:
  "sorted_wrt (<) (map fst (srcs :: sources)) \<Longrightarrow> distinct (map fst srcs)"
  by (simp add: strict_sorted_iff)

text \<open>
  Claim C8. \<open>addSource\<close> returns true exactly when a source with that name was in the map
  before the call; afterwards the name is bound to a source whose scanner holds the new
  content and whose library flag is the one given; every other name is bound to the source
  it was bound to before, text included; and adding the same name once more returns true.
\<close>

theorem addSource_replaces_content:
  "fst (addSource st nm content lib) = (nm \<in> fst ` set (m_sources st))
   \<and> (\<exists>s. map_of (m_sources (snd (addSource st nm content lib))) nm = Some s
          \<and> scanner s = Some \<lparr>sc_content = content, sc_name = nm\<rparr> \<and> isLibrary s = lib)
   \<and> (\<forall>other. other \<noteq> nm \<longrightarrow>
          map_of (m_sources (snd (addSource st nm content lib))) other = map_of (m_sources st) other)
   \<and> fst (addSource (snd (addSource st nm content lib)) nm content' lib') = True"
proof -
  let ?f = "\<lambda>s. s\<lparr>scanner := Some \<lparr>sc_content = content, sc_name = nm\<rparr>, isLibrary := lib\<rparr>"
  let ?m = "map_subscript nm defaultSource ?f (m_sources st)"
  from map_of_map_subscript_same[of nm defaultSource ?f "m_sources st"]
  obtain v where v: "map_of ?m nm = Some (?f v)" by blast
  have "\<exists>s. map_of ?m nm = Some s
          \<and> scanner s = Some \<lparr>sc_content = content, sc_name = nm\<rparr> \<and> isLibrary s = lib"
    unfolding v by simp
  moreover have "\<forall>other. other \<noteq> nm \<longrightarrow> map_of ?m other = map_of (m_sources st) other"
    by (simp add: map_of_map_subscript_other)
  moreover have "nm \<in> fst ` set ?m"
    by (simp add: keys_map_subscript)
  ultimately show ?thesis
    by (simp only: fst_addSource m_sources_addSource simp_thms)
qed

theorem addSource_replaces_content_witness:
  "fst (addSource stack0 ''n'' ''c1'' False) = False
   \<and> fst (addSource (snd (addSource stack0 ''n'' ''c1'' False)) ''n'' ''c2'' False) = True
   \<and> ''m'' \<noteq> ''n''
   \<and> map_of (m_sources (snd (addSource stack0 ''n'' ''c1'' False))) ''m'' = map_of (m_sources stack0) ''m''"
  using addSource_replaces_content[of stack0 "''n''" "''c1''" False "''c2''" False]
  by (simp add: stack0_def m_sources_addSource CompilerStack_new_def)

section \<open>The storage location of a state variable\<close>

text \<open>
  Claim C9. When \<open>isStateVariable\<close> holds of a declaration, \<open>storageLocationOfStateVariable\<close>
  returns the pair of slot and byte offset recorded for it in \<open>m_stateVariables\<close>; when it
  does not hold, the call returns no value: the assertion fails with an
  \<open>InternalCompilerError\<close>.
\<close>

theorem storageLocationOfStateVariable_precondition:
  "(isStateVariable ctx varDecl \<longrightarrow>
      (\<exists>location. m_stateVariables ctx varDecl = Some location
         \<and> storageLocationOfStateVariable ctx varDecl = Inr location))
   \<and> (\<not> isStateVariable ctx varDecl \<longrightarrow>
        storageLocationOfStateVariable ctx varDecl = Inl (InternalCompilerError []))"
  by (auto simp: storageLocationOfStateVariable_def isStateVariable_def solAssert_def)

theorem storageLocationOfStateVariable_precondition_witness:
  "isStateVariable \<lparr>m_stateVariables = [7 \<mapsto> (3, 16)]\<rparr> 7
   \<and> storageLocationOfStateVariable \<lparr>m_stateVariables = [7 \<mapsto> (3, 16)]\<rparr> 7 = Inr (3, 16)
   \<and> \<not> isStateVariable \<lparr>m_stateVariables = [7 \<mapsto> (3, 16)]\<rparr> 8
   \<and> storageLocationOfStateVariable \<lparr>m_stateVariables = [7 \<mapsto> (3, 16)]\<rparr> 8
       = Inl (InternalCompilerError [])"
  using storageLocationOfStateVariable_precondition[of "\<lparr>m_stateVariables = [7 \<mapsto> (3, 16)]\<rparr>" 7]
    storageLocationOfStateVariable_precondition[of "\<lparr>m_stateVariables = [7 \<mapsto> (3, 16)]\<rparr>" 8]
  by (simp add: isStateVariable_def)

section \<open>The comparator of the dispatch set\<close>

text \<open>What the comparator computes: it holds when the first pointer is null, whatever the second is.\<close>

lemma AscendingFunctionIDCompare_iff:
  "AscendingFunctionIDCompare f1 f2 \<longleftrightarrow>
     f1 = None \<or> (\<exists>d1 d2. f1 = Some d1 \<and> f2 = Some d2 \<and> id' d1 < id' d2)"
  by (auto simp: AscendingFunctionIDCompare_def split: option.splits)

text \<open>
  Claim C4. The comparator is to hold exactly when the first pointer is null and the second
  is not, or both are non-null and the first ID is the smaller one. On two null pointers it
  holds nevertheless: a null pointer is ordered strictly before a null pointer, so the
  comparator is not irreflexive, which \<open>std::set\<close> requires of it.
\<close>

theorem AscendingFunctionIDCompare_null_null:
  "AscendingFunctionIDCompare None None = True"
  by (simp add: AscendingFunctionIDCompare_def)

section \<open>The code hash of a contract\<close>

text \<open>
  Claim C3. For a name whose contract record exists, \<open>contractCodeHash\<close> returns the zero
  hash when the runtime bytecode is empty or has link references, and the hash of the runtime
  bytecode otherwise. So it returns the zero hash exactly when the bytecode is empty, has
  link references or is hashed to zero; and, the hash of that bytecode not being zero,
  exactly when the bytecode is empty or has link references.
\<close>

theorem contractCodeHash_zero_or_hash:
  assumes "contract st nm = Inr c"
  shows "contractCodeHash sha3 st nm =
           Inr (if bytecode (c_runtimeObject c) = [] \<or> linkReferences (c_runtimeObject c) \<noteq> []
                then 0 else sha3 (bytecode (c_runtimeObject c)))
         \<and> (contractCodeHash sha3 st nm = Inr 0 \<longleftrightarrow>
                 bytecode (c_runtimeObject c) = [] \<or> linkReferences (c_runtimeObject c) \<noteq> []
               \<or> sha3 (bytecode (c_runtimeObject c)) = 0)
         \<and> (sha3 (bytecode (c_runtimeObject c)) \<noteq> 0 \<longrightarrow>
              (contractCodeHash sha3 st nm = Inr 0 \<longleftrightarrow>
                 bytecode (c_runtimeObject c) = [] \<or> linkReferences (c_runtimeObject c) \<noteq> []))"
  using assms by (simp add: contractCodeHash_def runtimeObject_def)


theorem contractCodeHash_zero_or_hash_witness:
  "contract hashStack ''A'' = Inr (contractRecord ''A'' \<lparr>bytecode = [0x60, 0x80], linkReferences = []\<rparr>)
   \<and> toyHash [0x60, 0x80] \<noteq> 0
   \<and> contractCodeHash toyHash hashStack ''A'' = Inr (toyHash [0x60, 0x80])
   \<and> contractCodeHash toyHash hashStack ''A'' \<noteq> Inr 0"
proof -
  have c: "contract hashStack ''A'' = Inr (contractRecord ''A'' \<lparr>bytecode = [0x60, 0x80], linkReferences = []\<rparr>)"
    by (simp add: contract_def contractKey_def hashStack_def)
  have h: "toyHash [0x60, 0x80] \<noteq> 0" by (simp add: toyHash_def)
  from contractCodeHash_zero_or_hash[OF c, of toyHash] c h show ?thesis
    by (simp add: contractRecord_def)
qed

section \<open>Queries before a successful parse\<close>

lemma contract_ignores_flag:
  "contract (st\<lparr>m_parseSuccessful := b\<rparr>) nm = contract st nm"
  by (simp add: contract_def contractKey_def cong: sum.case_cong)

lemma contract_no_contracts:
  "m_contracts st = [] \<Longrightarrow> contract st nm = Inl (CompilerError ''No compiled contracts found.'')"
  by (simp add: contract_def)

text \<open>
  Claim C2, as the code has it. While \<open>m_parseSuccessful\<close> is false, \<open>contractNames\<close>,
  \<open>metadata\<close>, \<open>interface\<close> and \<open>solidityInterface\<close> fail with the \<open>CompilerError\<close>
  "Parsing was not successful.". The queries \<open>object\<close>, \<open>runtimeObject\<close>, \<open>cloneObject\<close> and
  \<open>contractDefinition\<close> do not read the flag: they answer as they would with the flag set,
  and fail with the \<open>CompilerError\<close> "No compiled contracts found." when there is no contract
  record.
\<close>

theorem queries_while_not_parsed:
  assumes "\<not> m_parseSuccessful st"
  shows "contractNames st = Inl (CompilerError ''Parsing was not successful.'')
    \<and> metadata documentation st nm ty = Inl (CompilerError ''Parsing was not successful.'')
    \<and> interface documentation st nm = Inl (CompilerError ''Parsing was not successful.'')
    \<and> solidityInterface documentation st nm = Inl (CompilerError ''Parsing was not successful.'')
    \<and> object st nm = object (st\<lparr>m_parseSuccessful := True\<rparr>) nm
    \<and> runtimeObject st nm = runtimeObject (st\<lparr>m_parseSuccessful := True\<rparr>) nm
    \<and> cloneObject st nm = cloneObject (st\<lparr>m_parseSuccessful := True\<rparr>) nm
    \<and> contractDefinition st nm = contractDefinition (st\<lparr>m_parseSuccessful := True\<rparr>) nm
    \<and> (m_contracts st = [] \<longrightarrow>
         object st nm = Inl (CompilerError ''No compiled contracts found.'')
       \<and> runtimeObject st nm = Inl (CompilerError ''No compiled contracts found.'')
       \<and> cloneObject st nm = Inl (CompilerError ''No compiled contracts found.'')
       \<and> contractDefinition st nm = Inl (CompilerError ''No compiled contracts found.''))"
  using assms
  by (simp add: contractNames_def metadata_def interface_def solidityInterface_def object_def
      runtimeObject_def cloneObject_def contractDefinition_def contract_ignores_flag
      contract_no_contracts)

theorem queries_while_not_parsed_witness:
  "\<not> m_parseSuccessful (CompilerStack_new False)
   \<and> m_contracts (CompilerStack_new False) = []
   \<and> contractNames (CompilerStack_new False) = Inl (CompilerError ''Parsing was not successful.'')
   \<and> runtimeObject (CompilerStack_new False) ''A'' = Inl (CompilerError ''No compiled contracts found.'')"
proof -
  have n: "\<not> m_parseSuccessful (CompilerStack_new False)" by (simp add: CompilerStack_new_def)
  have e: "m_contracts (CompilerStack_new False) = []" by (simp add: CompilerStack_new_def)
  from queries_while_not_parsed[OF n, of "\<lambda>d ty. []" "''A''" ABIInterface] n e show ?thesis
    by blast
qed

text \<open>
  Claim C2 as stated fails for \<open>object\<close>: on the freshly constructed stack its error carries
  another message, and on a stack whose parse stopped after registering contract \<open>A\<close> it
  returns the object of \<open>A\<close>.
\<close>

theorem object_while_not_parsed_counterexample:
  "\<not> m_parseSuccessful (CompilerStack_new False)
   \<and> object (CompilerStack_new False) [] = Inl (CompilerError ''No compiled contracts found.'')
   \<and> \<not> m_parseSuccessful partialStack
   \<and> object partialStack ''A'' = Inr emptyObject"
  by (simp add: CompilerStack_new_def partialStack_def object_def contract_def contractKey_def
      contractRecord_def)

section \<open>The contract lookup with the empty name\<close>

lemma lastContractName_eq:
  "lastContractName nodes cn = (if contractNamesOf nodes = [] then cn else last (contractNamesOf nodes))"
  by (induction nodes cn rule: lastContractName.induct) (auto simp: contractNamesOf_def)

lemma userContractNames_Cons:
  "userContractNames ((nm, src) # rest) =
     (if map_of StandardSources nm = None
      then (case ast src of None \<Rightarrow> [] | Some nodes \<Rightarrow> contractNamesOf nodes) else [])
     @ userContractNames rest"
  by (auto simp: userContractNames_def contractNamesOf_def split: option.splits)

lemma userContractName_eq:
  "allParsed srcs \<Longrightarrow>
     userContractName srcs cn =
       Inr (if userContractNames srcs = [] then cn else last (userContractNames srcs))"
proof (induction srcs arbitrary: cn)
  case Nil
  then show ?case by (simp add: userContractNames_def)
next
  case (Cons p srcs)
  obtain nm src where p: "p = (nm, src)" by (cases p)
  from Cons.prems obtain nodes where a: "ast src = Some nodes" and r: "allParsed srcs"
    by (auto simp: allParsed_def p)
  show ?case
  proof (cases "map_of StandardSources nm")
    case None
    then show ?thesis
      unfolding p userContractNames_Cons
      by (simp add: a Cons.IH[OF r] lastContractName_eq)
  next
    case (Some content)
    then show ?thesis
      unfolding p userContractNames_Cons
      by (simp add: Cons.IH[OF r])
  qed
qed

text \<open>
  Claim C7, as the code has it. With at least one contract record and every source parsed,
  \<open>contract\<close> with the empty name looks up the name of the last contract definition that it
  meets in the sources whose name is not a key of \<open>StandardSources\<close>, going through the source
  map in key order (the empty name itself when there is no such definition). It returns
  the record stored under that name when there is one, and it fails with the
  \<open>CompilerError\<close> "Contract  not found." when there is none.
\<close>

theorem contract_empty_name_fallback:
  assumes "m_contracts st \<noteq> []" and "allParsed (m_sources st)"
  shows "contract st [] =
     (case map_of (m_contracts st)
             (if userContractNames (m_sources st) = [] then []
              else last (userContractNames (m_sources st))) of
        None \<Rightarrow> Inl (CompilerError ''Contract  not found.'')
      | Some c \<Rightarrow> Inr c)"
  using assms by (simp add: contract_def contractKey_def userContractName_eq split: option.splits)

text \<open>
  Claim C7 as stated fails on \<open>libraryStack\<close>: a contract record exists, the last contract
  definition of a non-standard source is \<open>Z\<close>, and the lookup fails instead of returning a
  record, since the source of \<open>Z\<close> is not in the source order and \<open>Z\<close> has no record.
\<close>

theorem contract_empty_name_counterexample:
  "m_contracts libraryStack \<noteq> []
   \<and> resolveImports_order (m_sources libraryStack) = Inr (m_sourceOrder libraryStack)
   \<and> userContractNames (m_sources libraryStack) = [''A'', ''Z'']
   \<and> contract libraryStack [] = Inl (CompilerError ''Contract  not found.'')"
  by (simp add: libraryStack_def contract_def contractKey_def parsedSource_def StandardSources_def
      userContractNames_def contractNamesOf_def resolveImports_order_def)

theorem contract_empty_name_fallback_witness:
  "m_contracts hashStack \<noteq> [] \<and> allParsed (m_sources hashStack)
   \<and> userContractNames (m_sources hashStack) = [''A'', ''B'']
   \<and> contract hashStack [] = Inr (contractRecord ''B'' \<lparr>bytecode = [0x73], linkReferences = [(1, ''L'')]\<rparr>)"
proof -
  have 1: "m_contracts hashStack \<noteq> []" by (simp add: hashStack_def)
  have 2: "allParsed (m_sources hashStack)" by (simp add: hashStack_def allParsed_def parsedSource_def)
  have 3: "userContractNames (m_sources hashStack) = [''A'', ''B'']"
    by (simp add: hashStack_def userContractNames_def contractNamesOf_def parsedSource_def
        StandardSources_def)
  from contract_empty_name_fallback[OF 1 2] 1 2 3 show ?thesis
    by (simp add: hashStack_def)
qed

section \<open>The relative program size\<close>





end
